theory Spec2Isabelle
  imports Complex_Main "HOL-Library.Monad_Syntax"
begin

section \<open>Client-side coordination hooks of the portfolio site\<close>

text \<open>
  The development embeds the hooks that carry logic: from
  \<^verbatim>\<open>src/hooks/usePerformance.ts\<close> the virtual-scroll window, the throttle and
  debounce timers and the image preload cache, and from the accessibility hooks
  (\<^verbatim>\<open>hooks/useAccessibility\<close>, the module that defines \<^verbatim>\<open>useFocusManagement\<close> and
  \<^verbatim>\<open>useScreenReader\<close>) the focus trap and the screen-reader announcer.

  Conventions of the embedding.
  \<^item> A JavaScript number is an IEEE-754 double. The embedding of the virtual-scroll
    arithmetic covers the safe integers, the whole numbers of magnitude at most
    \<open>2\<^sup>5\<^sup>3 - 1\<close>, on which the operations the code uses are exact; everything else
    (a fractional pixel value, a larger number) is outside the embedding, which
    answers \<open>None\<close> there. The section on virtual scrolling says why.
  \<^item> Clock readings (\<^verbatim>\<open>Date.now()\<close>) and timer delays are milliseconds in
    \<^typ>\<open>int\<close>. A timer set at time \<open>t\<close> with delay \<open>d\<close> fires at exactly \<open>t + d\<close>,
    and a timer that is due at the instant of another event fires before it.
  \<^item> A React state variable read inside a \<^verbatim>\<open>useCallback\<close> body is the value of
    the render that created the callback; it is passed to the model of the callback
    as an explicit argument. A state update with an updater function
    (\<^verbatim>\<open>setX(prev => ...)\<close>) acts on the latest state.
\<close>

section \<open>Virtual scrolling: \<^verbatim>\<open>useVirtualScroll\<close>\<close>

subsection \<open>JavaScript arithmetic on safe integers\<close>

text \<open>
  The hook computes with doubles: \<^verbatim>\<open>scrollTop / itemHeight\<close> is the quotient rounded
  to 53 bits, and so are the sums and products. On fractional pixel values the
  rounding shows in the results: \<^verbatim>\<open>Math.floor(201 / 20.1)\<close> is 10 although the
  quotient of the two doubles is below 10, \<^verbatim>\<open>3.9 / 1.3\<close> is \<^verbatim>\<open>3\<close>, and
  \<^verbatim>\<open>3 * 1.3\<close> is \<^verbatim>\<open>3.9000000000000004\<close>. The embedding therefore does not
  describe such inputs. It describes the computation on safe integers
  (\<^verbatim>\<open>Number.MAX_SAFE_INTEGER\<close> is \<open>2\<^sup>5\<^sup>3 - 1\<close>), where the double arithmetic is the
  arithmetic of integers:
  \<^item> every whole number of magnitude at most \<open>2\<^sup>5\<^sup>3\<close> is a double, so a sum, a
    difference or a product of safe integers that is a safe integer again is
    computed exactly;
  \<^item> for safe integers \<open>a\<close> and \<open>b \<noteq> 0\<close>, \<^verbatim>\<open>Math.floor(a / b)\<close> is the floor of the
    exact quotient: where the quotient is not whole it is at least \<open>1 / |b|\<close> away
    from the next whole number, which is more than half the distance between
    neighbouring doubles at \<open>a / b\<close> because \<open>|a| < 2\<^sup>5\<^sup>3\<close>, so the rounded quotient
    lies on the same side of every whole number as the exact one.

  Each operation of the embedding checks that its operands and its result are safe
  integers and answers \<open>None\<close> otherwise. \<open>None\<close> says that the embedding does not
  describe the computation (the code still returns a number, \<^verbatim>\<open>NaN\<close> or an
  infinity); it is not an error of the code. Division by \<^verbatim>\<open>itemHeight = 0\<close> yields
  \<^verbatim>\<open>Infinity\<close> or \<^verbatim>\<open>NaN\<close> and is outside the embedding as well.
\<close>

definition MAX_SAFE_INTEGER :: int where
  "MAX_SAFE_INTEGER = 9007199254740991"

definition safe :: "int \<Rightarrow> int option" where
  "safe n = (if - MAX_SAFE_INTEGER \<le> n \<and> n \<le> MAX_SAFE_INTEGER then Some n else None)"

text \<open>\<^verbatim>\<open>a + b\<close>, \<^verbatim>\<open>a - b\<close>, \<^verbatim>\<open>a * b\<close> and \<^verbatim>\<open>Math.floor(a / b)\<close>.\<close>

definition js_add :: "int \<Rightarrow> int \<Rightarrow> int option" where
  "js_add a b = do { x \<leftarrow> safe a; y \<leftarrow> safe b; safe (x + y) }"

definition js_sub :: "int \<Rightarrow> int \<Rightarrow> int option" where
  "js_sub a b = do { x \<leftarrow> safe a; y \<leftarrow> safe b; safe (x - y) }"

definition js_mul :: "int \<Rightarrow> int \<Rightarrow> int option" where
  "js_mul a b = do { x \<leftarrow> safe a; y \<leftarrow> safe b; safe (x * y) }"

definition js_floor_div :: "int \<Rightarrow> int \<Rightarrow> int option" where
  "js_floor_div a b =
     do { x \<leftarrow> safe a; y \<leftarrow> safe b; if y = 0 then None else safe (x div y) }"

subsection \<open>The visible range\<close>

text \<open>
  \<^verbatim>\<open>
  const getVisibleRange = useCallback(() => {
    const startIndex = Math.floor(scrollTop / itemHeight);
    const endIndex = Math.min(
      itemCount - 1,
      Math.floor((scrollTop + containerHeight) / itemHeight)
    );
    return {
      startIndex: Math.max(0, startIndex - overscan),
      endIndex: Math.min(itemCount - 1, endIndex + overscan),
    };
  }, [scrollTop, itemHeight, containerHeight, itemCount, overscan]);
  \<close>
  \<^verbatim>\<open>Math.min\<close> and \<^verbatim>\<open>Math.max\<close> return one of their arguments and round nothing.
\<close>

definition getVisibleRange :: "int \<Rightarrow> int \<Rightarrow> int \<Rightarrow> int \<Rightarrow> int \<Rightarrow> (int \<times> int) option" where
  "getVisibleRange itemCount itemHeight containerHeight overscan scrollTop =
     do {
       startIndex \<leftarrow> js_floor_div scrollTop itemHeight;
       bottom \<leftarrow> js_add scrollTop containerHeight;
       reached \<leftarrow> js_floor_div bottom itemHeight;
       lastIndex \<leftarrow> js_sub itemCount 1;
       let endIndex = min lastIndex reached;
       first \<leftarrow> js_sub startIndex overscan;
       beyond \<leftarrow> js_add endIndex overscan;
       Some (max 0 first, min lastIndex beyond)
     }"

record virtual_scroll =
  visibleItems :: int
  startIndex :: int
  endIndex :: int
  totalHeight :: int
  offsetY :: int

text \<open>
  \<^verbatim>\<open>
  const { startIndex, endIndex } = getVisibleRange();
  const visibleItems = endIndex - startIndex + 1;
  const totalHeight = itemCount * itemHeight;
  const offsetY = startIndex * itemHeight;
  \<close>
\<close>

definition useVirtualScroll :: "int \<Rightarrow> int \<Rightarrow> int \<Rightarrow> int \<Rightarrow> int \<Rightarrow> virtual_scroll option" where
  "useVirtualScroll itemCount itemHeight containerHeight overscan scrollTop =
     do {
       (s, e) \<leftarrow> getVisibleRange itemCount itemHeight containerHeight overscan scrollTop;
       span \<leftarrow> js_sub e s;
       visible \<leftarrow> js_add span 1;
       total \<leftarrow> js_mul itemCount itemHeight;
       offset \<leftarrow> js_mul s itemHeight;
       Some \<lparr>visibleItems = visible, startIndex = s, endIndex = e,
             totalHeight = total, offsetY = offset\<rparr>
     }"

text \<open>
  The inputs on which the theorems show that the embedding answers: whole numbers of
  magnitude at most \<open>2\<^sup>2\<^sup>5\<close>. Every intermediate result is then a safe integer.
\<close>

definition in_range :: "int \<Rightarrow> bool" where
  "in_range n \<longleftrightarrow> - 33554432 \<le> n \<and> n \<le> 33554432"

section \<open>Rate limiting: \<^verbatim>\<open>useThrottle\<close> and \<^verbatim>\<open>useDebounce\<close>\<close>

subsection \<open>Throttle\<close>

text \<open>
  \<^verbatim>\<open>
  const lastCall = useRef(0);
  const timeoutRef = useRef<number>();
  return useCallback(((...args) => {
      const now = Date.now();
      if (now - lastCall.current >= delay) {
        lastCall.current = now;
        return callback(...args);
      } else {
        clearTimeout(timeoutRef.current);
        timeoutRef.current = setTimeout(() => {
          lastCall.current = Date.now();
          callback(...args);
        }, delay - (now - lastCall.current));
      }
    }), [callback, delay]);
  \<close>
  The two refs are the state. \<open>timeoutRef\<close> holds the pending timer, if any, as the
  instant it is due and the arguments its closure captured; \<open>executed\<close> logs every
  run of \<^verbatim>\<open>callback\<close> with the clock reading and the arguments.
\<close>

record 'a throttle_refs =
  lastCall :: int
  timeoutRef :: "(int \<times> 'a) option"
  executed :: "(int \<times> 'a) list"

definition useThrottle :: "'a throttle_refs" where
  "useThrottle = \<lparr>lastCall = 0, timeoutRef = None, executed = []\<rparr>"

text \<open>One call of the wrapped function when \<^verbatim>\<open>Date.now()\<close> reads \<open>now\<close>.\<close>

definition throttled :: "int \<Rightarrow> int \<Rightarrow> 'a \<Rightarrow> 'a throttle_refs \<Rightarrow> 'a throttle_refs" where
  "throttled delay now args r =
     (if now - lastCall r \<ge> delay
      then r\<lparr>lastCall := now, executed := executed r @ [(now, args)]\<rparr>
      else r\<lparr>timeoutRef := Some (now + (delay - (now - lastCall r)), args)\<rparr>)"

text \<open>The clock advances to \<open>now\<close>: a pending timer that is due by then has fired.\<close>

definition throttle_elapse :: "int \<Rightarrow> 'a throttle_refs \<Rightarrow> 'a throttle_refs" where
  "throttle_elapse now r =
     (case timeoutRef r of
        None \<Rightarrow> r
      | Some (due, args) \<Rightarrow>
          if due \<le> now
          then r\<lparr>lastCall := due, executed := executed r @ [(due, args)], timeoutRef := None\<rparr>
          else r)"

text \<open>A sequence of calls, each with its clock reading and its arguments.\<close>

fun throttle_calls :: "int \<Rightarrow> (int \<times> 'a) list \<Rightarrow> 'a throttle_refs \<Rightarrow> 'a throttle_refs" where
  "throttle_calls delay [] r = r"
| "throttle_calls delay ((now, args) # cs) r =
     throttle_calls delay cs (throttled delay now args (throttle_elapse now r))"

text \<open>All calls of \<open>cs\<close> are made at instants in \<open>[lo, hi)\<close>.\<close>

fun in_window :: "int \<Rightarrow> int \<Rightarrow> (int \<times> 'a) list \<Rightarrow> bool" where
  "in_window lo hi [] = True"
| "in_window lo hi ((t, a) # cs) = (lo \<le> t \<and> t < hi \<and> in_window lo hi cs)"

subsection \<open>Debounce\<close>

text \<open>
  \<^verbatim>\<open>
  export const useDebounce = <T>(value: T, delay: number): T => {
    const [debouncedValue, setDebouncedValue] = useState<T>(value);
    useEffect(() => {
      const handler = setTimeout(() => { setDebouncedValue(value); }, delay);
      return () => { clearTimeout(handler); };
    }, [value, delay]);
    return debouncedValue;
  };
  \<close>
  The hook is called on every render of its component. \<open>dep_value\<close> and
  \<open>dep_delay\<close> are the dependencies of the last run of the effect: React runs the
  cleanup and the effect again only when one of them changed (it compares with
  \<^verbatim>\<open>Object.is\<close>; for a value that is an object, \<open>'a\<close> stands for its identity).
  \<open>updates\<close> logs every run of \<^verbatim>\<open>setDebouncedValue\<close>.
\<close>

record 'a debounce_hook =
  debouncedValue :: 'a
  dep_value :: 'a
  dep_delay :: int
  handler :: "(int \<times> 'a) option"
  updates :: "(int \<times> 'a) list"

text \<open>The first render, at clock reading \<open>now\<close>.\<close>

definition useDebounce_mount :: "int \<Rightarrow> 'a \<Rightarrow> int \<Rightarrow> 'a debounce_hook" where
  "useDebounce_mount now v delay =
     \<lparr>debouncedValue = v, dep_value = v, dep_delay = delay,
      handler = Some (now + delay, v), updates = []\<rparr>"

text \<open>A later render.\<close>

definition useDebounce :: "int \<Rightarrow> 'a \<Rightarrow> int \<Rightarrow> 'a debounce_hook \<Rightarrow> 'a debounce_hook" where
  "useDebounce now v delay h =
     (if v = dep_value h \<and> delay = dep_delay h then h
      else h\<lparr>dep_value := v, dep_delay := delay, handler := Some (now + delay, v)\<rparr>)"

definition debounce_elapse :: "int \<Rightarrow> 'a debounce_hook \<Rightarrow> 'a debounce_hook" where
  "debounce_elapse now h =
     (case handler h of
        None \<Rightarrow> h
      | Some (due, v) \<Rightarrow>
          if due \<le> now
          then h\<lparr>debouncedValue := v, updates := updates h @ [(due, v)], handler := None\<rparr>
          else h)"

fun debounce_renders :: "int \<Rightarrow> (int \<times> 'a) list \<Rightarrow> 'a debounce_hook \<Rightarrow> 'a debounce_hook" where
  "debounce_renders delay [] h = h"
| "debounce_renders delay ((now, v) # rs) h =
     debounce_renders delay rs (useDebounce now v delay (debounce_elapse now h))"

text \<open>
  A burst after a render at \<open>t\<close> with value \<open>v\<close>: every further render passes a new
  value and comes less than \<open>delay\<close> after the one before it.
\<close>

fun burst :: "int \<Rightarrow> int \<Rightarrow> 'a \<Rightarrow> (int \<times> 'a) list \<Rightarrow> bool" where
  "burst delay t v [] = True"
| "burst delay t v ((t', v') # rs) =
     (t \<le> t' \<and> t' < t + delay \<and> v' \<noteq> v \<and> burst delay t' v' rs)"

section \<open>Screen-reader announcements: \<^verbatim>\<open>useScreenReader\<close>\<close>

text \<open>
  \<^verbatim>\<open>
  const [announcements, setAnnouncements] = useState<string[]>([]);
  const announce = useCallback((message, priority = 'polite') => {
    setAnnouncements(prev => [...prev, message]);
    const liveRegion = document.createElement('div');
    liveRegion.setAttribute('aria-live', priority);
    liveRegion.setAttribute('aria-atomic', 'true');
    liveRegion.className = 'sr-only';
    liveRegion.textContent = message;
    document.body.appendChild(liveRegion);
    setTimeout(() => { document.body.removeChild(liveRegion); }, 1000);
  }, []);
  const clearAnnouncements = useCallback(() => { setAnnouncements([]); }, []);
  \<close>
  A DOM node has an identity: \<^verbatim>\<open>document.createElement\<close> returns a new object
  on every call. The model numbers the nodes in the order of their creation
  (\<open>created\<close> counts them). \<open>body\<close> lists the live regions that are children of
  \<^verbatim>\<open>document.body\<close>, and \<open>removals\<close> the pending timers, each with the instant it
  is due and the node its closure holds. \<^verbatim>\<open>removeChild\<close> of a node that is not a
  child throws inside the timer callback and changes nothing.
\<close>

datatype priority = Polite | Assertive

record live_region =
  node :: nat
  aria_live :: priority
  aria_atomic :: string
  className :: string
  textContent :: string

record screen_reader =
  announcements :: "string list"
  body :: "live_region list"
  removals :: "(int \<times> nat) list"
  created :: nat

definition useScreenReader :: screen_reader where
  "useScreenReader = \<lparr>announcements = [], body = [], removals = [], created = 0\<rparr>"

definition createElement :: "nat \<Rightarrow> priority \<Rightarrow> string \<Rightarrow> live_region" where
  "createElement n priority message =
     \<lparr>node = n, aria_live = priority, aria_atomic = ''true'', className = ''sr-only'',
      textContent = message\<rparr>"

definition announce :: "int \<Rightarrow> string \<Rightarrow> priority \<Rightarrow> screen_reader \<Rightarrow> screen_reader" where
  "announce now message priority s =
     (let liveRegion = createElement (created s) priority message
      in s\<lparr>announcements := announcements s @ [message],
           body := body s @ [liveRegion],
           removals := removals s @ [(now + 1000, node liveRegion)],
           created := created s + 1\<rparr>)"

definition clearAnnouncements :: "screen_reader \<Rightarrow> screen_reader" where
  "clearAnnouncements s = s\<lparr>announcements := []\<rparr>"

definition removeChild :: "nat \<Rightarrow> live_region list \<Rightarrow> live_region list" where
  "removeChild n b = filter (\<lambda>r. node r \<noteq> n) b"

fun fire_removals :: "int \<Rightarrow> (int \<times> nat) list \<Rightarrow> live_region list \<Rightarrow> live_region list" where
  "fire_removals now [] b = b"
| "fire_removals now ((due, n) # ts) b =
     fire_removals now ts (if due \<le> now then removeChild n b else b)"

definition sr_elapse :: "int \<Rightarrow> screen_reader \<Rightarrow> screen_reader" where
  "sr_elapse now s =
     s\<lparr>body := fire_removals now (removals s) (body s),
       removals := filter (\<lambda>(due, n). now < due) (removals s)\<rparr>"

text \<open>
  What can happen to the hook, each with the clock reading at which it happens: a
  call of \<^verbatim>\<open>announce\<close>, a call of \<^verbatim>\<open>clearAnnouncements\<close>, or time passing.
  Timers that are due fire first.
\<close>

datatype sr_event = Announce int string priority | ClearAnnouncements int | Elapse int

fun sr_step :: "sr_event \<Rightarrow> screen_reader \<Rightarrow> screen_reader" where
  "sr_step (Announce now message priority) s = announce now message priority (sr_elapse now s)"
| "sr_step (ClearAnnouncements now) s = clearAnnouncements (sr_elapse now s)"
| "sr_step (Elapse now) s = sr_elapse now s"

fun sr_run :: "sr_event list \<Rightarrow> screen_reader \<Rightarrow> screen_reader" where
  "sr_run [] s = s"
| "sr_run (e # es) s = sr_run es (sr_step e s)"

fun event_time :: "sr_event \<Rightarrow> int" where
  "event_time (Announce now message priority) = now"
| "event_time (ClearAnnouncements now) = now"
| "event_time (Elapse now) = now"

fun events_before :: "int \<Rightarrow> sr_event list \<Rightarrow> bool" where
  "events_before D [] = True"
| "events_before D (e # es) = (event_time e < D \<and> events_before D es)"

fun no_clear :: "sr_event list \<Rightarrow> bool" where
  "no_clear [] = True"
| "no_clear (Announce now message priority # es) = no_clear es"
| "no_clear (ClearAnnouncements now # es) = False"
| "no_clear (Elapse now # es) = no_clear es"

fun messages :: "sr_event list \<Rightarrow> string list" where
  "messages [] = []"
| "messages (Announce now message priority # es) = message # messages es"
| "messages (ClearAnnouncements now # es) = messages es"
| "messages (Elapse now # es) = messages es"

text \<open>
  Two invariants for the proofs. In a well-formed state every node in the body or
  held by a timer was created earlier. A channel \<open>c\<close> is live until \<open>D\<close> when it is
  in the body and the one timer that holds it is pending and due at \<open>D\<close>.
\<close>

definition wf_sr :: "screen_reader \<Rightarrow> bool" where
  "wf_sr s \<longleftrightarrow> (\<forall>r \<in> set (body s). node r < created s) \<and>
                (\<forall>(due, n) \<in> set (removals s). n < created s)"

definition channel_live :: "int \<Rightarrow> live_region \<Rightarrow> screen_reader \<Rightarrow> bool" where
  "channel_live D c s \<longleftrightarrow>
     c \<in> set (body s) \<and> (D, node c) \<in> set (removals s) \<and>
     (\<forall>x \<in> set (removals s). snd x = node c \<longrightarrow> fst x = D) \<and> node c < created s"

section \<open>Focus trap: \<^verbatim>\<open>useFocusManagement\<close>\<close>

text \<open>
  \<^verbatim>\<open>
  const focusElement = useCallback((index: number) => {
      if (index >= 0 && index < focusableElements.length) {
        focusableElements[index].focus();
        setCurrentFocusIndex(index);
      }
    }, [focusableElements]);
  const focusFirst = useCallback(() => { focusElement(0); }, [focusElement]);
  const focusLast = useCallback(() => {
      focusElement(focusableElements.length - 1);
    }, [focusElement, focusableElements.length]);
  \<close>
  Elements are values of a type \<open>'e\<close>, compared by identity. The state that the
  functions touch is \<^verbatim>\<open>document.activeElement\<close> (\<open>None\<close> for \<^verbatim>\<open>null\<close>) and the
  hook's \<^verbatim>\<open>currentFocusIndex\<close>; \<^verbatim>\<open>element.focus()\<close> makes the element the active
  one. All callbacks of one render see the same \<^verbatim>\<open>focusableElements\<close>.
\<close>

record 'e focus_state =
  activeElement :: "'e option"
  currentFocusIndex :: int

definition focusElement :: "'e list \<Rightarrow> int \<Rightarrow> 'e focus_state \<Rightarrow> 'e focus_state" where
  "focusElement focusableElements index d =
     (if index \<ge> 0 \<and> index < int (length focusableElements)
      then d\<lparr>activeElement := Some (focusableElements ! nat index),
             currentFocusIndex := index\<rparr>
      else d)"

definition focusFirst :: "'e list \<Rightarrow> 'e focus_state \<Rightarrow> 'e focus_state" where
  "focusFirst focusableElements d = focusElement focusableElements 0 d"

definition focusLast :: "'e list \<Rightarrow> 'e focus_state \<Rightarrow> 'e focus_state" where
  "focusLast focusableElements d =
     focusElement focusableElements (int (length focusableElements) - 1) d"

text \<open>
  \<^verbatim>\<open>
  const trapFocus = useCallback((event: KeyboardEvent) => {
      if (event.key !== 'Tab') return;
      if (focusableElements.length === 0) {
        event.preventDefault();
        return;
      }
      if (event.shiftKey) {
        if (document.activeElement === focusableElements[0]) {
          event.preventDefault();
          focusLast();
        }
      } else {
        if (document.activeElement === focusableElements[focusableElements.length - 1]) {
          event.preventDefault();
          focusFirst();
        }
      }
    }, [focusableElements, focusFirst, focusLast]);
  \<close>
  The handler returns the event, with \<open>defaultPrevented\<close> set where it called
  \<^verbatim>\<open>preventDefault\<close>, and the focus state.
\<close>

record keyboard_event =
  key :: string
  shiftKey :: bool
  defaultPrevented :: bool

definition preventDefault :: "keyboard_event \<Rightarrow> keyboard_event" where
  "preventDefault event = event\<lparr>defaultPrevented := True\<rparr>"

definition trapFocus ::
  "'e list \<Rightarrow> keyboard_event \<Rightarrow> 'e focus_state \<Rightarrow> keyboard_event \<times> 'e focus_state" where
  "trapFocus focusableElements event d =
     (if key event \<noteq> ''Tab'' then (event, d)
      else if length focusableElements = 0 then (preventDefault event, d)
      else if shiftKey event then
        (if activeElement d = Some (focusableElements ! 0)
         then (preventDefault event, focusLast focusableElements d)
         else (event, d))
      else
        (if activeElement d = Some (focusableElements ! (length focusableElements - 1))
         then (preventDefault event, focusFirst focusableElements d)
         else (event, d)))"

section \<open>Image preload cache: \<^verbatim>\<open>usePreload\<close>\<close>

text \<open>
  \<^verbatim>\<open>
  const [loadedResources, setLoadedResources] = useState<Set<string>>(new Set());
  const [loadingResources, setLoadingResources] = useState<Set<string>>(new Set());
  \<close>
  The two sets are React state. Every update builds a new set
  (\<^verbatim>\<open>new Set(prev).add(src)\<close>), so a set that a render has read never changes.
  \<^verbatim>\<open>preloadImage\<close> is a \<^verbatim>\<open>useCallback\<close> with the dependencies
  \<^verbatim>\<open>[loadedResources, loadingResources]\<close>: each render creates a callback that
  reads the sets of that render. The model passes them as \<open>env\<close>.

  The world around the hook: \<open>state\<close> is the latest React state, \<open>promises\<close> the
  promises that \<^verbatim>\<open>preloadImage\<close> has returned, in the order of their creation,
  \<open>images\<close> the \<^verbatim>\<open>Image\<close> objects whose load is in flight, each with the promise
  its handlers settle and its \<^verbatim>\<open>src\<close>, \<open>issued\<close> the log of the loads started
  (\<^verbatim>\<open>img.src = src\<close>), and \<open>polls\<close> the pending \<^verbatim>\<open>setTimeout(checkLoaded, 100)\<close>
  timers, each with the promise, the key and the \<^verbatim>\<open>loadedResources\<close> set its
  closure reads.
\<close>

datatype outcome = Pending | Resolved | Rejected string

record preload_state =
  loadedResources :: "string set"
  loadingResources :: "string set"

record preload_world =
  state :: preload_state
  promises :: "outcome list"
  images :: "(nat \<times> string) list"
  issued :: "string list"
  polls :: "(nat \<times> string \<times> string set) list"

definition usePreload :: preload_world where
  "usePreload =
     \<lparr>state = \<lparr>loadedResources = {}, loadingResources = {}\<rparr>,
      promises = [], images = [], issued = [], polls = []\<rparr>"

text \<open>\<^verbatim>\<open>resolve\<close> and \<^verbatim>\<open>reject\<close> of a promise: only the first call has an effect.\<close>

definition settle :: "nat \<Rightarrow> outcome \<Rightarrow> preload_world \<Rightarrow> preload_world" where
  "settle p out w =
     (if p < length (promises w) \<and> promises w ! p = Pending
      then w\<lparr>promises := (promises w)[p := out]\<rparr>
      else w)"

text \<open>
  \<^verbatim>\<open>
  const checkLoaded = () => {
    if (loadedResources.has(src)) {
      resolve();
    } else {
      setTimeout(checkLoaded, 100);
    }
  };
  \<close>
\<close>

definition checkLoaded :: "string set \<Rightarrow> nat \<Rightarrow> string \<Rightarrow> preload_world \<Rightarrow> preload_world" where
  "checkLoaded loaded p src w =
     (if src \<in> loaded then settle p Resolved w
      else w\<lparr>polls := polls w @ [(p, src, loaded)]\<rparr>)"

definition setLoadedResources ::
  "(string set \<Rightarrow> string set) \<Rightarrow> preload_world \<Rightarrow> preload_world" where
  "setLoadedResources f w =
     w\<lparr>state := (state w)\<lparr>loadedResources := f (loadedResources (state w))\<rparr>\<rparr>"

definition setLoadingResources ::
  "(string set \<Rightarrow> string set) \<Rightarrow> preload_world \<Rightarrow> preload_world" where
  "setLoadingResources f w =
     w\<lparr>state := (state w)\<lparr>loadingResources := f (loadingResources (state w))\<rparr>\<rparr>"

text \<open>
  \<^verbatim>\<open>
  const preloadImage = useCallback((src: string): Promise<void> => {
    return new Promise((resolve, reject) => {
      if (loadedResources.has(src)) { resolve(); return; }
      if (loadingResources.has(src)) {
        const checkLoaded = ...;
        checkLoaded();
        return;
      }
      setLoadingResources(prev => new Set(prev).add(src));
      const img = new Image();
      img.onload = ...;
      img.onerror = ...;
      img.src = src;
    });
  }, [loadedResources, loadingResources]);
  \<close>
\<close>

definition preloadImage :: "preload_state \<Rightarrow> string \<Rightarrow> preload_world \<Rightarrow> preload_world" where
  "preloadImage env src w =
     (let p = length (promises w);
          w' = w\<lparr>promises := promises w @ [Pending]\<rparr>
      in if src \<in> loadedResources env then settle p Resolved w'
         else if src \<in> loadingResources env then checkLoaded (loadedResources env) p src w'
         else (setLoadingResources (\<lambda>prev. insert src prev) w')
                \<lparr>images := images w' @ [(p, src)], issued := issued w' @ [src]\<rparr>)"

text \<open>
  \<^verbatim>\<open>
  const preloadImages = useCallback(async (srcs: string[]) => {
    const promises = srcs.map(src => preloadImage(src));
    await Promise.allSettled(promises);
  }, [preloadImage]);
  \<close>
  All calls go through the one \<^verbatim>\<open>preloadImage\<close> that the callback holds.
\<close>

definition preloadImages :: "preload_state \<Rightarrow> string list \<Rightarrow> preload_world \<Rightarrow> preload_world" where
  "preloadImages env srcs w = fold (preloadImage env) srcs w"

text \<open>
  \<^verbatim>\<open>
  img.onload = () => {
    setLoadedResources(prev => new Set(prev).add(src));
    setLoadingResources(prev => { const newSet = new Set(prev); newSet.delete(src); return newSet; });
    resolve();
  };
  img.onerror = () => {
    setLoadingResources(prev => { const newSet = new Set(prev); newSet.delete(src); return newSet; });
    reject(new Error(`Failed to load image: ${src}`));
  };
  \<close>
  The load of the \<open>i\<close>-th image in flight ends, with success or with an error.
\<close>

definition img_onload :: "nat \<Rightarrow> preload_world \<Rightarrow> preload_world" where
  "img_onload i w =
     (if i < length (images w)
      then let (p, src) = images w ! i;
               w1 = w\<lparr>images := take i (images w) @ drop (Suc i) (images w)\<rparr>;
               w2 = setLoadedResources (\<lambda>prev. insert src prev) w1;
               w3 = setLoadingResources (\<lambda>prev. prev - {src}) w2
           in settle p Resolved w3
      else w)"

definition img_onerror :: "nat \<Rightarrow> preload_world \<Rightarrow> preload_world" where
  "img_onerror i w =
     (if i < length (images w)
      then let (p, src) = images w ! i;
               w1 = w\<lparr>images := take i (images w) @ drop (Suc i) (images w)\<rparr>;
               w2 = setLoadingResources (\<lambda>prev. prev - {src}) w1
           in settle p (Rejected (''Failed to load image: '' @ src)) w2
      else w)"

text \<open>The oldest pending \<^verbatim>\<open>setTimeout(checkLoaded, 100)\<close> fires.\<close>

definition poll_timer :: "preload_world \<Rightarrow> preload_world" where
  "poll_timer w =
     (case polls w of
        [] \<Rightarrow> w
      | (p, src, loaded) # rest \<Rightarrow> checkLoaded loaded p src (w\<lparr>polls := rest\<rparr>))"

text \<open>
  What can happen: a call of a \<^verbatim>\<open>preloadImage\<close> callback (with the sets of the
  render that created it), the end of a load, a poll timer.
\<close>

datatype preload_event =
  Call preload_state string | Onload nat | Onerror nat | PollTimer

fun preload_step :: "preload_event \<Rightarrow> preload_world \<Rightarrow> preload_world" where
  "preload_step (Call env src) w = preloadImage env src w"
| "preload_step (Onload i) w = img_onload i w"
| "preload_step (Onerror i) w = img_onerror i w"
| "preload_step PollTimer w = poll_timer w"

fun preload_run :: "preload_event list \<Rightarrow> preload_world \<Rightarrow> preload_world" where
  "preload_run [] w = w"
| "preload_run (e # es) w = preload_run es (preload_step e w)"

text \<open>
  The invariant of a promise that can no longer be settled: it is pending, no image
  in flight holds it, and no pending poll can find its key in the set it reads.
\<close>

definition waits_forever :: "nat \<Rightarrow> preload_world \<Rightarrow> bool" where
  "waits_forever q w \<longleftrightarrow>
     q < length (promises w) \<and> promises w ! q = Pending \<and>
     (\<forall>x \<in> set (images w). fst x \<noteq> q) \<and>
     (\<forall>x \<in> set (polls w). fst (snd x) \<notin> snd (snd x))"

text \<open>
  In every world the hook can reach, an image in flight holds a promise that exists,
  and no pending poll can find its key in the set it reads.
\<close>

definition wf_world :: "preload_world \<Rightarrow> bool" where
  "wf_world w \<longleftrightarrow>
     (\<forall>x \<in> set (images w). fst x < length (promises w)) \<and>
     (\<forall>x \<in> set (polls w). fst (snd x) \<notin> snd (snd x))"

section \<open>Properties of the virtual window\<close>

subsection \<open>What the operations return\<close>

lemmas js_defs = js_add_def js_sub_def js_mul_def js_floor_div_def safe_def
  MAX_SAFE_INTEGER_def

lemma safe_SomeI: "\<bar>n\<bar> \<le> MAX_SAFE_INTEGER \<Longrightarrow> safe n = Some n"
  by (auto simp add: safe_def)

lemma js_add_SomeD: "js_add a b = Some c \<Longrightarrow> c = a + b"
  by (auto simp add: js_add_def safe_def split: Option.bind_splits if_splits)

lemma js_sub_SomeD: "js_sub a b = Some c \<Longrightarrow> c = a - b"
  by (auto simp add: js_sub_def safe_def split: Option.bind_splits if_splits)

lemma js_mul_SomeD: "js_mul a b = Some c \<Longrightarrow> c = a * b"
  by (auto simp add: js_mul_def safe_def split: Option.bind_splits if_splits)

lemma js_floor_div_SomeD: "js_floor_div a b = Some c \<Longrightarrow> b \<noteq> 0 \<and> c = a div b"
  by (auto simp add: js_floor_div_def safe_def split: Option.bind_splits if_splits)

lemma js_add_SomeI:
  "\<bar>a\<bar> \<le> MAX_SAFE_INTEGER \<Longrightarrow> \<bar>b\<bar> \<le> MAX_SAFE_INTEGER \<Longrightarrow>
   \<bar>a + b\<bar> \<le> MAX_SAFE_INTEGER \<Longrightarrow> js_add a b = Some (a + b)"
  by (simp add: js_add_def safe_SomeI)

lemma js_sub_SomeI:
  "\<bar>a\<bar> \<le> MAX_SAFE_INTEGER \<Longrightarrow> \<bar>b\<bar> \<le> MAX_SAFE_INTEGER \<Longrightarrow>
   \<bar>a - b\<bar> \<le> MAX_SAFE_INTEGER \<Longrightarrow> js_sub a b = Some (a - b)"
  by (simp add: js_sub_def safe_SomeI)

lemma js_mul_SomeI:
  "\<bar>a\<bar> \<le> MAX_SAFE_INTEGER \<Longrightarrow> \<bar>b\<bar> \<le> MAX_SAFE_INTEGER \<Longrightarrow>
   \<bar>a * b\<bar> \<le> MAX_SAFE_INTEGER \<Longrightarrow> js_mul a b = Some (a * b)"
  by (simp add: js_mul_def safe_SomeI)

lemma js_floor_div_SomeI:
  "\<bar>a\<bar> \<le> MAX_SAFE_INTEGER \<Longrightarrow> \<bar>b\<bar> \<le> MAX_SAFE_INTEGER \<Longrightarrow> b \<noteq> 0 \<Longrightarrow>
   \<bar>a div b\<bar> \<le> MAX_SAFE_INTEGER \<Longrightarrow> js_floor_div a b = Some (a div b)"
  by (simp add: js_floor_div_def safe_SomeI)

lemma getVisibleRange_SomeD:
  assumes "getVisibleRange itemCount itemHeight containerHeight overscan scrollTop = Some (s, e)"
  shows "itemHeight \<noteq> 0"
    and "s = max 0 (scrollTop div itemHeight - overscan)"
    and "e = min (itemCount - 1)
              (min (itemCount - 1) ((scrollTop + containerHeight) div itemHeight) + overscan)"
  using assms unfolding getVisibleRange_def Let_def
  by (auto split: Option.bind_splits dest!: js_add_SomeD js_sub_SomeD js_floor_div_SomeD)

lemma useVirtualScroll_SomeD:
  assumes "useVirtualScroll itemCount itemHeight containerHeight overscan scrollTop = Some r"
  shows "getVisibleRange itemCount itemHeight containerHeight overscan scrollTop =
            Some (startIndex r, endIndex r)"
    and "visibleItems r = endIndex r - startIndex r + 1"
    and "totalHeight r = itemCount * itemHeight"
    and "offsetY r = startIndex r * itemHeight"
  using assms unfolding useVirtualScroll_def
  by (auto split: Option.bind_splits prod.splits
      dest!: js_add_SomeD js_sub_SomeD js_mul_SomeD)

subsection \<open>The embedding answers on whole-number inputs up to \<open>2\<^sup>2\<^sup>5\<close>\<close>

lemma abs_div_le:
  fixes a b :: int
  assumes "0 < b"
  shows "\<bar>a div b\<bar> \<le> \<bar>a\<bar>"
proof (cases "0 \<le> a")
  case True
  then have "0 \<le> a div b"
    using assms by (simp add: pos_imp_zdiv_nonneg_iff)
  moreover have "a div b \<le> a div 1"
    using True assms by (intro zdiv_mono2) simp_all
  ultimately show ?thesis using True by simp
next
  case False
  then have neg: "a < 0" by simp
  then have "a div b < 0"
    using assms by (simp add: pos_imp_zdiv_neg_iff)
  moreover have "a div 1 \<le> a div b"
    using neg assms by (intro zdiv_mono2_neg) simp_all
  ultimately show ?thesis using neg by simp
qed

lemma in_rangeD: "in_range n \<Longrightarrow> \<bar>n\<bar> \<le> 33554432"
  by (auto simp add: in_range_def)

lemma getVisibleRange_answers:
  assumes "0 < itemHeight"
    and "in_range itemCount" and "in_range itemHeight" and "in_range containerHeight"
    and "in_range overscan" and "in_range scrollTop"
  shows "getVisibleRange itemCount itemHeight containerHeight overscan scrollTop =
     Some (max 0 (scrollTop div itemHeight - overscan),
           min (itemCount - 1)
             (min (itemCount - 1) ((scrollTop + containerHeight) div itemHeight) + overscan))"
proof -
  note b = in_rangeD [OF assms(2)] in_rangeD [OF assms(3)] in_rangeD [OF assms(4)]
    in_rangeD [OF assms(5)] in_rangeD [OF assms(6)]
  have q1: "\<bar>scrollTop div itemHeight\<bar> \<le> 33554432"
    using abs_div_le [OF assms(1), of scrollTop] b(5) by linarith
  have sum: "\<bar>scrollTop + containerHeight\<bar> \<le> 67108864"
    using b(3,5) by linarith
  have q2: "\<bar>(scrollTop + containerHeight) div itemHeight\<bar> \<le> 67108864"
    using abs_div_le [OF assms(1), of "scrollTop + containerHeight"] sum by linarith
  have 1: "js_floor_div scrollTop itemHeight = Some (scrollTop div itemHeight)"
    using b(2,5) q1 assms(1) by (intro js_floor_div_SomeI) (simp_all add: MAX_SAFE_INTEGER_def)
  have 2: "js_add scrollTop containerHeight = Some (scrollTop + containerHeight)"
    using b(3,5) sum by (intro js_add_SomeI) (simp_all add: MAX_SAFE_INTEGER_def)
  have 3: "js_floor_div (scrollTop + containerHeight) itemHeight =
      Some ((scrollTop + containerHeight) div itemHeight)"
    using b(2) sum q2 assms(1) by (intro js_floor_div_SomeI) (simp_all add: MAX_SAFE_INTEGER_def)
  have 4: "js_sub itemCount 1 = Some (itemCount - 1)"
    using b(1) by (intro js_sub_SomeI) (simp_all add: MAX_SAFE_INTEGER_def)
  have 5: "js_sub (scrollTop div itemHeight) overscan = Some (scrollTop div itemHeight - overscan)"
    using b(4) q1 by (intro js_sub_SomeI) (simp_all add: MAX_SAFE_INTEGER_def)
  let ?e = "min (itemCount - 1) ((scrollTop + containerHeight) div itemHeight)"
  have e: "\<bar>?e\<bar> \<le> 67108864"
    using b(1) q2 by linarith
  have 6: "js_add ?e overscan = Some (?e + overscan)"
    using b(4) e by (intro js_add_SomeI) (simp_all add: MAX_SAFE_INTEGER_def)
  show ?thesis
    unfolding getVisibleRange_def by (simp add: 1 2 3 4 5 6)
qed

lemma useVirtualScroll_answers:
  assumes "0 < itemHeight"
    and "in_range itemCount" and "in_range itemHeight" and "in_range containerHeight"
    and "in_range overscan" and "in_range scrollTop"
  shows "\<exists>r. useVirtualScroll itemCount itemHeight containerHeight overscan scrollTop = Some r"
proof -
  note b = in_rangeD [OF assms(2)] in_rangeD [OF assms(3)] in_rangeD [OF assms(4)]
    in_rangeD [OF assms(5)] in_rangeD [OF assms(6)]
  let ?s = "max 0 (scrollTop div itemHeight - overscan)"
  let ?e = "min (itemCount - 1)
             (min (itemCount - 1) ((scrollTop + containerHeight) div itemHeight) + overscan)"
  have range: "getVisibleRange itemCount itemHeight containerHeight overscan scrollTop =
      Some (?s, ?e)"
    using assms by (rule getVisibleRange_answers)
  have q1: "\<bar>scrollTop div itemHeight\<bar> \<le> 33554432"
    using abs_div_le [OF assms(1), of scrollTop] b(5) by linarith
  have q2: "\<bar>(scrollTop + containerHeight) div itemHeight\<bar> \<le> 67108864"
    using abs_div_le [OF assms(1), of "scrollTop + containerHeight"] b(3,5) by linarith
  have s: "0 \<le> ?s" "?s \<le> 67108864"
    using q1 b(4) by linarith+
  have e: "\<bar>?e\<bar> \<le> 100663296"
    using q2 b(1,4) by linarith
  have 1: "js_sub ?e ?s = Some (?e - ?s)"
    using s e by (intro js_sub_SomeI) (simp_all add: MAX_SAFE_INTEGER_def)
  have 2: "js_add (?e - ?s) 1 = Some (?e - ?s + 1)"
    using s e by (intro js_add_SomeI) (simp_all add: MAX_SAFE_INTEGER_def)
  have "\<bar>itemCount * itemHeight\<bar> \<le> 33554432 * 33554432"
    unfolding abs_mult using b(1,2) by (intro mult_mono) simp_all
  then have 3: "js_mul itemCount itemHeight = Some (itemCount * itemHeight)"
    using b(1,2) by (intro js_mul_SomeI) (simp_all add: MAX_SAFE_INTEGER_def)
  have "\<bar>?s * itemHeight\<bar> \<le> 67108864 * 33554432"
    unfolding abs_mult using s b(2) by (intro mult_mono) simp_all
  then have 4: "js_mul ?s itemHeight = Some (?s * itemHeight)"
    using s b(2) by (intro js_mul_SomeI) (simp_all add: MAX_SAFE_INTEGER_def)
  show ?thesis
    unfolding useVirtualScroll_def by (simp add: range 1 2 3 4)
qed

subsection \<open>The computed formulas\<close>

lemma floor_quotient_div:
  "\<lfloor>rat_of_int a / rat_of_int b\<rfloor> = a div b"
  by (rule floor_divide_of_int_eq)

lemma double_clamp:
  "(0::int) \<le> overscan \<Longrightarrow> min n (min n f + overscan) = min n (f + overscan)"
  by (simp add: min_def)

text \<open>
  Claim C4, as stated, quantifies over every input with \<^verbatim>\<open>itemHeight > 0\<close>. The code
  clamps the raw end index to \<^verbatim>\<open>itemCount - 1\<close> before it adds \<^verbatim>\<open>overscan\<close>, so
  with a negative \<^verbatim>\<open>overscan\<close> and a container that reaches past the last item the
  end index is \<^verbatim>\<open>itemCount - 1 + overscan\<close>, not the claimed
  \<^verbatim>\<open>min(itemCount - 1, floor((scrollOffset + containerHeight) / itemHeight) + overscan)\<close>:
  for 6 items of height 1 in a container of height 10 at offset 0 with overscan -2
  the code returns end index 3 where the claimed formula gives 5.
\<close>

theorem C4_negative_overscan_counterexample:
  "map_option endIndex (useVirtualScroll 6 1 10 (- 2) 0) = Some 3 \<and>
   min (6 - 1) (\<lfloor>rat_of_int (0 + 10) / rat_of_int 1\<rfloor> + (- 2)) = (5::int)"
  by (simp add: useVirtualScroll_def getVisibleRange_def js_defs)

text \<open>
  Claim C4, amended: for every input of five safe integers on which all operands and
  results of the computation are safe integers (so that the code's double arithmetic
  is exact; this is so whenever the five are whole numbers of magnitude at most
  \<open>2\<^sup>2\<^sup>5\<close>), with \<^verbatim>\<open>itemHeight > 0\<close> and \<^verbatim>\<open>overscan \<ge> 0\<close>, the virtual-window
  computation returns
  \<open>startIndex = max(0, floor(scrollOffset / itemHeight) - overscan)\<close>,
  \<open>endIndex = min(itemCount - 1, floor((scrollOffset + containerHeight) / itemHeight) + overscan)\<close>,
  \<open>totalHeight = itemCount * itemHeight\<close> and \<open>offsetY = startIndex * itemHeight\<close>;
  in particular 100 items of height 40 in a container of height 400 at scroll offset
  800 with overscan 2 give start index 18, end index 32, total height 4000 and
  offset 720. (On fractional inputs the code's rounded quotients and products can
  differ from these formulas; the embedding does not describe them.)
\<close>

theorem C4_virtual_window_formulas:
  "(0 < itemHeight \<and> 0 \<le> overscan \<and>
    useVirtualScroll itemCount itemHeight containerHeight overscan scrollOffset = Some r \<longrightarrow>
      startIndex r =
        max 0 (\<lfloor>rat_of_int scrollOffset / rat_of_int itemHeight\<rfloor> - overscan) \<and>
      endIndex r =
        min (itemCount - 1)
          (\<lfloor>rat_of_int (scrollOffset + containerHeight) / rat_of_int itemHeight\<rfloor> + overscan) \<and>
      visibleItems r = endIndex r - startIndex r + 1 \<and>
      totalHeight r = itemCount * itemHeight \<and>
      offsetY r = startIndex r * itemHeight) \<and>
   (0 < itemHeight \<and> in_range itemCount \<and> in_range itemHeight \<and>
    in_range containerHeight \<and> in_range overscan \<and> in_range scrollOffset \<longrightarrow>
      (\<exists>r. useVirtualScroll itemCount itemHeight containerHeight overscan scrollOffset
              = Some r)) \<and>
   useVirtualScroll 100 40 400 2 800 =
     Some \<lparr>visibleItems = 15, startIndex = 18, endIndex = 32,
           totalHeight = 4000, offsetY = 720\<rparr>"
proof (intro conjI impI)
  assume a: "0 < itemHeight \<and> 0 \<le> overscan \<and>
    useVirtualScroll itemCount itemHeight containerHeight overscan scrollOffset = Some r"
  then have r: "useVirtualScroll itemCount itemHeight containerHeight overscan scrollOffset
      = Some r" by simp
  note u = useVirtualScroll_SomeD [OF r]
  note g = getVisibleRange_SomeD [OF u(1)]
  show "startIndex r =
        max 0 (\<lfloor>rat_of_int scrollOffset / rat_of_int itemHeight\<rfloor> - overscan)"
    unfolding floor_quotient_div by (rule g(2))
  show "endIndex r =
        min (itemCount - 1)
          (\<lfloor>rat_of_int (scrollOffset + containerHeight) / rat_of_int itemHeight\<rfloor> + overscan)"
    unfolding floor_quotient_div using g(3) a by (simp add: double_clamp)
  show "visibleItems r = endIndex r - startIndex r + 1"
    by (rule u(2))
  show "totalHeight r = itemCount * itemHeight"
    by (rule u(3))
  show "offsetY r = startIndex r * itemHeight"
    by (rule u(4))
next
  assume "0 < itemHeight \<and> in_range itemCount \<and> in_range itemHeight \<and>
    in_range containerHeight \<and> in_range overscan \<and> in_range scrollOffset"
  then show "\<exists>r. useVirtualScroll itemCount itemHeight containerHeight overscan scrollOffset
              = Some r"
    by (intro useVirtualScroll_answers) simp_all
next
  show "useVirtualScroll 100 40 400 2 800 =
     Some \<lparr>visibleItems = 15, startIndex = 18, endIndex = 32,
           totalHeight = 4000, offsetY = 720\<rparr>"
    by (simp add: useVirtualScroll_def getVisibleRange_def js_defs)
qed

theorem C4_virtual_window_witness:
  "(0::int) < 25 \<and> (0::int) \<le> 3 \<and>
   in_range 50 \<and> in_range 25 \<and> in_range 210 \<and> in_range 3 \<and> in_range 130 \<and>
   useVirtualScroll 50 25 210 3 130 =
     Some \<lparr>visibleItems = 15, startIndex = 2, endIndex = 16,
           totalHeight = 1250, offsetY = 50\<rparr> \<and>
   max 0 (\<lfloor>rat_of_int 130 / rat_of_int 25\<rfloor> - 3) = (2::int) \<and>
   min (50 - 1) (\<lfloor>rat_of_int (130 + 210) / rat_of_int 25\<rfloor> + 3) = (16::int)"
  using C4_virtual_window_formulas [of 25 3 50 210 130
      "\<lparr>visibleItems = 15, startIndex = 2, endIndex = 16, totalHeight = 1250, offsetY = 50\<rparr>"]
  by (simp add: useVirtualScroll_def getVisibleRange_def js_defs in_range_def
      floor_quotient_div)

subsection \<open>Range invariant\<close>

lemma div_nonneg: "0 \<le> (x::int) \<Longrightarrow> 0 < h \<Longrightarrow> 0 \<le> x div h"
  by (simp add: pos_imp_zdiv_nonneg_iff)

lemma div_mono: "(x::int) \<le> y \<Longrightarrow> 0 < h \<Longrightarrow> x div h \<le> y div h"
  by (rule zdiv_mono1)

lemma div_less: "(x::int) < n * h \<Longrightarrow> 0 < h \<Longrightarrow> x div h < n"
proof -
  assume less: "x < n * h" and h: "0 < h"
  have "x div h * h + x mod h = x"
    by (rule div_mult_mod_eq)
  moreover have "0 \<le> x mod h"
    using h by simp
  ultimately have "x div h * h < n * h"
    using less by linarith
  then show ?thesis
    using h by (simp add: mult_less_cancel_right_pos)
qed

lemma div_le: "(x::int) \<le> n * h \<Longrightarrow> 0 < h \<Longrightarrow> x div h \<le> n"
proof -
  assume "x \<le> n * h" and h: "0 < h"
  then have "x div h \<le> (n * h) div h"
    by (intro zdiv_mono1)
  then show ?thesis using h by simp
qed

lemma clamp_bounds:
  fixes S F n overscan :: int
  assumes "0 \<le> S" and "S \<le> F" and "S - overscan \<le> n - 1" and "0 < n" and "0 \<le> overscan"
  shows "0 \<le> max 0 (S - overscan) \<and> max 0 (S - overscan) \<le> n - 1 \<and>
         0 \<le> min (n - 1) (min (n - 1) F + overscan) \<and>
         min (n - 1) (min (n - 1) F + overscan) \<le> n - 1 \<and>
         max 0 (S - overscan) \<le> min (n - 1) (min (n - 1) F + overscan)"
  using assms by (auto simp add: min_def max_def)

text \<open>
  Claim C5, as stated, fails where the container has height 0 and the list is
  scrolled to its very end with no overscan: the hypotheses allow
  \<^verbatim>\<open>scrollOffset = itemCount * itemHeight\<close>, where the raw start index is
  \<^verbatim>\<open>itemCount\<close>, and the code clamps the start index from below only. For 100 items
  of height 40, container height 0, overscan 0 and scroll offset 4000 the code returns
  start index 100 and end index 99.
\<close>

theorem C5_zero_container_counterexample:
  "(0::int) < 100 \<and> (0::int) < 40 \<and> (0::int) \<le> 0 \<and> (0::int) \<le> 0 \<and>
   (0::int) \<le> 4000 \<and> (4000::int) \<le> 100 * 40 - 0 \<and>
   getVisibleRange 100 40 0 0 4000 = Some (100, 99) \<and>
   \<not> (100::int) \<le> 100 - 1 \<and> \<not> (100::int) \<le> 99"
  by (simp add: getVisibleRange_def js_defs)

text \<open>
  Claim C5, amended: for every input of safe integers on which all operands and
  results of the computation are safe integers (so that the code's double arithmetic
  is exact; this is so whenever the five are whole numbers of magnitude at most
  \<open>2\<^sup>2\<^sup>5\<close>), with \<^verbatim>\<open>itemCount > 0\<close>, \<^verbatim>\<open>itemHeight > 0\<close>, \<^verbatim>\<open>overscan \<ge> 0\<close>,
  \<^verbatim>\<open>containerHeight \<ge> 0\<close> and \<^verbatim>\<open>scrollOffset\<close> in the clamped range
  \<open>[0, itemCount * itemHeight - containerHeight]\<close>, and with
  \<^verbatim>\<open>scrollOffset < itemCount * itemHeight\<close> or \<^verbatim>\<open>overscan \<ge> 1\<close>, the computed start
  and end index both lie in \<open>[0, itemCount - 1]\<close> and the start index is at most the
  end index. (On fractional inputs the rounded quotient can reach \<^verbatim>\<open>itemCount\<close>
  although the offset is below the end of the list; the embedding does not describe
  them.)
\<close>

theorem C5_visible_range_bounds:
  "(0 < itemCount \<and> 0 < itemHeight \<and> 0 \<le> overscan \<and> 0 \<le> containerHeight \<and>
    0 \<le> scrollOffset \<and> scrollOffset \<le> itemCount * itemHeight - containerHeight \<and>
    (scrollOffset < itemCount * itemHeight \<or> 1 \<le> overscan) \<and>
    getVisibleRange itemCount itemHeight containerHeight overscan scrollOffset = Some (s, e) \<longrightarrow>
      0 \<le> s \<and> s \<le> itemCount - 1 \<and> 0 \<le> e \<and> e \<le> itemCount - 1 \<and> s \<le> e) \<and>
   (0 < itemHeight \<and> in_range itemCount \<and> in_range itemHeight \<and>
    in_range containerHeight \<and> in_range overscan \<and> in_range scrollOffset \<longrightarrow>
      (\<exists>s e. getVisibleRange itemCount itemHeight containerHeight overscan scrollOffset
                = Some (s, e)))"
proof (intro conjI impI)
  assume a: "0 < itemCount \<and> 0 < itemHeight \<and> 0 \<le> overscan \<and> 0 \<le> containerHeight \<and>
    0 \<le> scrollOffset \<and> scrollOffset \<le> itemCount * itemHeight - containerHeight \<and>
    (scrollOffset < itemCount * itemHeight \<or> 1 \<le> overscan) \<and>
    getVisibleRange itemCount itemHeight containerHeight overscan scrollOffset = Some (s, e)"
  then have n: "0 < itemCount" and h: "0 < itemHeight" and o: "0 \<le> overscan"
    and c: "0 \<le> containerHeight" and lo: "0 \<le> scrollOffset"
    and hi: "scrollOffset \<le> itemCount * itemHeight - containerHeight"
    and strict: "scrollOffset < itemCount * itemHeight \<or> 1 \<le> overscan"
    and r: "getVisibleRange itemCount itemHeight containerHeight overscan scrollOffset
        = Some (s, e)"
    by simp_all
  let ?S = "scrollOffset div itemHeight"
  let ?F = "(scrollOffset + containerHeight) div itemHeight"
  have S0: "0 \<le> ?S"
    using lo h by (rule div_nonneg)
  have SF: "?S \<le> ?F"
    using c h by (intro div_mono) simp_all
  have "scrollOffset \<le> itemCount * itemHeight"
    using c hi by linarith
  then have SN: "?S \<le> itemCount"
    using h by (rule div_le)
  have Slt: "scrollOffset < itemCount * itemHeight \<Longrightarrow> ?S < itemCount"
    using h by (intro div_less)
  have start_hi: "?S - overscan \<le> itemCount - 1"
    using o strict Slt SN by auto
  note g = getVisibleRange_SomeD [OF r]
  have s: "0 \<le> s" "s \<le> itemCount - 1" "0 \<le> e" "e \<le> itemCount - 1" "s \<le> e"
    unfolding g(2,3) using clamp_bounds [OF S0 SF start_hi n o] by blast+
  show "0 \<le> s" "s \<le> itemCount - 1" "0 \<le> e" "e \<le> itemCount - 1" "s \<le> e"
    by (rule s)+
next
  assume "0 < itemHeight \<and> in_range itemCount \<and> in_range itemHeight \<and>
    in_range containerHeight \<and> in_range overscan \<and> in_range scrollOffset"
  then show "\<exists>s e. getVisibleRange itemCount itemHeight containerHeight overscan scrollOffset
                = Some (s, e)"
    using getVisibleRange_answers [of itemHeight itemCount containerHeight overscan scrollOffset]
    by simp
qed

theorem C5_visible_range_witness:
  "(0::int) < 100 \<and> (0::int) < 40 \<and> (0::int) \<le> 2 \<and> (0::int) \<le> 400 \<and>
   (0::int) \<le> 3600 \<and> (3600::int) \<le> 100 * 40 - 400 \<and> (3600::int) < 100 * 40 \<and>
   in_range 100 \<and> in_range 40 \<and> in_range 400 \<and> in_range 2 \<and> in_range 3600 \<and>
   getVisibleRange 100 40 400 2 3600 = Some (88, 99) \<and>
   (0::int) \<le> 88 \<and> (88::int) \<le> 100 - 1 \<and> (0::int) \<le> 99 \<and> (99::int) \<le> 100 - 1 \<and>
   (88::int) \<le> 99"
  using C5_visible_range_bounds [of 100 40 2 400 3600 88 99]
  by (simp add: getVisibleRange_def js_defs in_range_def)

section \<open>Properties of the rate limiters\<close>

subsection \<open>Throttle: coalescing within a window\<close>

lemma throttle_elapse_early:
  "timeoutRef r = None \<or> (\<exists>a. timeoutRef r = Some (due, a)) \<Longrightarrow> now < due \<Longrightarrow>
   throttle_elapse now r = r"
  by (auto simp add: throttle_elapse_def)

lemma throttled_in_window:
  "now < lastCall r + delay \<Longrightarrow>
   throttled delay now args r = r\<lparr>timeoutRef := Some (lastCall r + delay, args)\<rparr>"
  by (simp add: throttled_def)

lemma throttle_calls_window:
  "timeoutRef r = None \<or> (\<exists>a. timeoutRef r = Some (lastCall r + delay, a)) \<Longrightarrow>
   in_window (lastCall r) (lastCall r + delay) cs \<Longrightarrow>
   throttle_calls delay cs r =
     (if cs = [] then r else r\<lparr>timeoutRef := Some (lastCall r + delay, snd (last cs))\<rparr>)"
proof (induction cs arbitrary: r)
  case Nil
  then show ?case by simp
next
  case (Cons c cs)
  obtain t a where c: "c = (t, a)" by (cases c)
  from Cons.prems c have t: "lastCall r \<le> t" "t < lastCall r + delay"
    and w: "in_window (lastCall r) (lastCall r + delay) cs" by simp_all
  let ?r = "r\<lparr>timeoutRef := Some (lastCall r + delay, a)\<rparr>"
  have step: "throttled delay t a (throttle_elapse t r) = ?r"
    using Cons.prems(1) t by (simp add: throttle_elapse_early throttled_in_window)
  have "throttle_calls delay cs ?r =
      (if cs = [] then ?r else ?r\<lparr>timeoutRef := Some (lastCall ?r + delay, snd (last cs))\<rparr>)"
    using w by (intro Cons.IH) simp_all
  then show ?case by (simp add: c step)
qed

lemma throttle_leading_then_window:
  assumes "timeoutRef r = None" and "delay \<le> now - lastCall r"
    and "cs \<noteq> []" and "in_window now (now + delay) cs"
  shows "throttle_calls delay ((now, a) # cs) r =
     r\<lparr>lastCall := now, executed := executed r @ [(now, a)],
       timeoutRef := Some (now + delay, snd (last cs))\<rparr>"
proof -
  let ?r = "r\<lparr>lastCall := now, executed := executed r @ [(now, a)]\<rparr>"
  have first: "throttled delay now a (throttle_elapse now r) = ?r"
    using assms(1,2) by (simp add: throttle_elapse_def throttled_def)
  have "throttle_calls delay cs ?r =
      (if cs = [] then ?r else ?r\<lparr>timeoutRef := Some (lastCall ?r + delay, snd (last cs))\<rparr>)"
    using assms(1,4) by (intro throttle_calls_window) simp_all
  then show ?thesis using assms(3) by (simp add: first)
qed

text \<open>
  Claim C3, as stated, fails on the scenario it names. With interval 20 and calls at
  t = 0, 5, 15, 25 the timer set by the call at t = 15 fires at t = 20, before the
  call at t = 25, which then falls into a new window and sets a timer of its own: the
  wrapped function runs three times, at t = 0, at t = 20 with the arguments of the
  call at t = 15, and at t = 40 with those of the call at t = 25. (The first
  conjunct reads the clock as 1000 at the first call. The second takes the clock to
  read 0 there: \<^verbatim>\<open>lastCall\<close> starts at 0, so that call is not run at once, and the
  two runs are at t = 20 and t = 40.)
\<close>

theorem C3_throttle_three_runs_counterexample:
  "executed (throttle_elapse 1040 (throttle_calls 20
       [(1000, ''t0''), (1005, ''t5''), (1015, ''t15''), (1025, ''t25'')] useThrottle))
     = [(1000, ''t0''), (1020, ''t15''), (1040, ''t25'')] \<and>
   executed (throttle_elapse 40 (throttle_calls 20
       [(0, ''t0''), (5, ''t5''), (15, ''t15''), (25, ''t25'')] useThrottle))
     = [(20, ''t15''), (40, ''t25'')]"
  by (simp add: throttle_elapse_def throttled_def useThrottle_def)

text \<open>
  Claim C3, amended: for the throttle wrapper with interval 20 ms, calls at
  t = 0, 5, 15, 25 ms (counted from a first call made when the clock reads at least
  20) produce exactly three executions of the wrapped function: one at t = 0 with that
  call's arguments, a trailing one at t = 20 carrying the arguments of the call at
  t = 15, and a trailing one at t = 40 carrying the arguments of the call at t = 25.
  More generally, a call made at least one interval after the last execution, with no
  timer pending, executes immediately, and all later calls within the interval after
  it are coalesced into exactly one trailing execution, at the end of the interval,
  using the last coalesced call's arguments.
\<close>

theorem C3_throttle_windows:
  "(20 \<le> T \<and> 40 \<le> H \<longrightarrow>
      executed (throttle_elapse (T + H) (throttle_calls 20
          [(T, a0), (T + 5, a1), (T + 15, a2), (T + 25, a3)] useThrottle))
        = [(T, a0), (T + 20, a2), (T + 40, a3)]) \<and>
   (timeoutRef r = None \<and> delay \<le> now - lastCall r \<and> cs \<noteq> [] \<and>
    in_window now (now + delay) cs \<longrightarrow>
      executed (throttle_elapse (now + delay) (throttle_calls delay ((now, a) # cs) r))
        = executed r @ [(now, a), (now + delay, snd (last cs))] \<and>
      (\<forall>H' < now + delay.
         executed (throttle_elapse H' (throttle_calls delay ((now, a) # cs) r))
           = executed r @ [(now, a)]))"
proof (intro conjI impI)
  assume "20 \<le> T \<and> 40 \<le> H"
  then show "executed (throttle_elapse (T + H) (throttle_calls 20
          [(T, a0), (T + 5, a1), (T + 15, a2), (T + 25, a3)] useThrottle))
        = [(T, a0), (T + 20, a2), (T + 40, a3)]"
    by (simp add: throttle_elapse_def throttled_def useThrottle_def)
next
  assume "timeoutRef r = None \<and> delay \<le> now - lastCall r \<and> cs \<noteq> [] \<and>
    in_window now (now + delay) cs"
  then have eq: "throttle_calls delay ((now, a) # cs) r =
     r\<lparr>lastCall := now, executed := executed r @ [(now, a)],
       timeoutRef := Some (now + delay, snd (last cs))\<rparr>"
    by (intro throttle_leading_then_window) simp_all
  show "executed (throttle_elapse (now + delay) (throttle_calls delay ((now, a) # cs) r))
        = executed r @ [(now, a), (now + delay, snd (last cs))]"
    unfolding eq by (simp add: throttle_elapse_def)
  show "\<forall>H' < now + delay.
         executed (throttle_elapse H' (throttle_calls delay ((now, a) # cs) r))
           = executed r @ [(now, a)]"
    unfolding eq by (simp add: throttle_elapse_def)
qed

theorem C3_throttle_windows_witness:
  "(20::int) \<le> 1000 \<and> (40::int) \<le> 45 \<and>
   executed (throttle_elapse (1000 + 45) (throttle_calls 20
       [(1000, ''t0''), (1000 + 5, ''t5''), (1000 + 15, ''t15''), (1000 + 25, ''t25'')]
       useThrottle))
     = [(1000, ''t0''), (1000 + 20, ''t15''), (1000 + 40, ''t25'')] \<and>
   timeoutRef (useThrottle :: string throttle_refs) = None \<and>
   (16::int) \<le> 500 - lastCall (useThrottle :: string throttle_refs) \<and>
   [(503, ''b''), (509, ''c'')] \<noteq> [] \<and>
   in_window 500 (500 + 16) [(503, ''b''), (509, ''c'')] \<and>
   executed (throttle_elapse (500 + 16)
       (throttle_calls 16 [(500, ''a''), (503, ''b''), (509, ''c'')] useThrottle))
     = [(500, ''a''), (516, ''c'')]"
  using C3_throttle_windows [of 1000 45 "''t0''" "''t5''" "''t15''" "''t25''"
      "useThrottle :: string throttle_refs" 16 500 "[(503, ''b''), (509, ''c'')]" "''a''"]
  by (simp add: useThrottle_def)

subsection \<open>Debounce: only the last value of a burst is published\<close>

lemma debounce_renders_burst:
  "handler h = Some (t + delay, v) \<Longrightarrow> dep_value h = v \<Longrightarrow> dep_delay h = delay \<Longrightarrow>
   burst delay t v rs \<Longrightarrow>
   debounce_renders delay rs h =
     h\<lparr>dep_value := snd (last ((t, v) # rs)),
       handler := Some (fst (last ((t, v) # rs)) + delay, snd (last ((t, v) # rs)))\<rparr>"
proof (induction rs arbitrary: h t v)
  case Nil
  then show ?case by simp
next
  case (Cons r rs)
  obtain t' v' where r: "r = (t', v')" by (cases r)
  from Cons.prems(4) r have t': "t \<le> t'" "t' < t + delay" and v': "v' \<noteq> v"
    and b: "burst delay t' v' rs" by simp_all
  let ?h = "h\<lparr>dep_value := v', dep_delay := delay, handler := Some (t' + delay, v')\<rparr>"
  have step: "useDebounce t' v' delay (debounce_elapse t' h) = ?h"
    using Cons.prems(1,2) t' v' by (simp add: debounce_elapse_def useDebounce_def)
  have "debounce_renders delay rs ?h =
     ?h\<lparr>dep_value := snd (last ((t', v') # rs)),
       handler := Some (fst (last ((t', v') # rs)) + delay, snd (last ((t', v') # rs)))\<rparr>"
    using b by (intro Cons.IH) simp_all
  then show ?case using Cons.prems(3) by (simp add: r step)
qed

lemma debounce_elapse_twice:
  "now \<le> later \<Longrightarrow> debounce_elapse later (debounce_elapse now h) = debounce_elapse later h"
  by (cases "handler h") (auto simp add: debounce_elapse_def)

text \<open>
  Claim C9, as stated, takes every render for a call that resets the timer. React
  runs the effect again only when \<^verbatim>\<open>value\<close> or \<^verbatim>\<open>delay\<close> has changed, so a render
  that passes the value of the render before leaves the pending timer alone: with
  the values \<^verbatim>\<open>'a'\<close>, \<^verbatim>\<open>'ab'\<close>, \<^verbatim>\<open>'ab'\<close> at t = 0, 5, 10 the one update is at
  t = 25, not at t = 30.
\<close>

theorem C9_unchanged_value_counterexample:
  "updates (debounce_elapse 30
       (debounce_renders 20 [(5, ''ab''), (10, ''ab'')] (useDebounce_mount 0 ''a'' 20)))
     = [(25, ''ab'')] \<and>
   debouncedValue (debounce_elapse 25
       (debounce_renders 20 [(5, ''ab''), (10, ''ab'')] (useDebounce_mount 0 ''a'' 20)))
     = ''ab''"
  by (simp add: debounce_elapse_def useDebounce_def useDebounce_mount_def)

text \<open>
  Claim C9, amended: for the debounce with interval 20 ms, values passed at
  t = 0, 5 and 10 ms, the one passed at t = 10 different from the one passed at
  t = 5 (the hook mounts at t = 0, or a mounted hook is passed a changed value
  then), produce exactly one debounced update, at t = 30, with the value passed at
  t = 10: the hook returns its first value before t = 30 and the value passed at
  t = 10 from then on. A render that passes the same value and delay as the render
  before changes nothing; a render with a changed value or delay cancels the pending
  timer and starts one for its own value, one interval later, and a timer fires at
  most once. So after any burst of renders with changed values, each less than the
  interval after the one before, the only update is the one of the last value, one
  interval after the last render.
\<close>

theorem C9_debounce_last_value:
  "(v2 \<noteq> v1 \<longrightarrow>
      (\<forall>H\<ge>30.
         updates (debounce_elapse (T + H)
           (debounce_renders 20 [(T + 5, v1), (T + 10, v2)] (useDebounce_mount T v0 20)))
           = [(T + 30, v2)] \<and>
         debouncedValue (debounce_elapse (T + H)
           (debounce_renders 20 [(T + 5, v1), (T + 10, v2)] (useDebounce_mount T v0 20)))
           = v2) \<and>
      (\<forall>H<30.
         updates (debounce_elapse (T + H)
           (debounce_renders 20 [(T + 5, v1), (T + 10, v2)] (useDebounce_mount T v0 20)))
           = [] \<and>
         debouncedValue (debounce_elapse (T + H)
           (debounce_renders 20 [(T + 5, v1), (T + 10, v2)] (useDebounce_mount T v0 20)))
           = v0)) \<and>
   (v0 \<noteq> dep_value h \<and> v2 \<noteq> v1 \<longrightarrow>
      (\<forall>H\<ge>30.
         updates (debounce_elapse (T + H)
           (debounce_renders 20 [(T, v0), (T + 5, v1), (T + 10, v2)] h))
           = updates (debounce_elapse T h) @ [(T + 30, v2)] \<and>
         debouncedValue (debounce_elapse (T + H)
           (debounce_renders 20 [(T, v0), (T + 5, v1), (T + 10, v2)] h))
           = v2)) \<and>
   (burst delay t v rs \<longrightarrow>
      updates (debounce_elapse (fst (last ((t, v) # rs)) + delay)
          (debounce_renders delay rs (useDebounce_mount t v delay)))
        = [(fst (last ((t, v) # rs)) + delay, snd (last ((t, v) # rs)))] \<and>
      debouncedValue (debounce_elapse (fst (last ((t, v) # rs)) + delay)
          (debounce_renders delay rs (useDebounce_mount t v delay)))
        = snd (last ((t, v) # rs)) \<and>
      (\<forall>H < fst (last ((t, v) # rs)) + delay.
         updates (debounce_elapse H (debounce_renders delay rs (useDebounce_mount t v delay)))
           = [] \<and>
         debouncedValue
           (debounce_elapse H (debounce_renders delay rs (useDebounce_mount t v delay)))
           = v)) \<and>
   useDebounce now (dep_value g) (dep_delay g) g = g \<and>
   useDebounce now v0 d (useDebounce_mount T v0 d) = useDebounce_mount T v0 d \<and>
   (w \<noteq> dep_value g \<or> d \<noteq> dep_delay g \<longrightarrow>
      handler (useDebounce now w d g) = Some (now + d, w) \<and>
      updates (useDebounce now w d g) = updates g \<and>
      debouncedValue (useDebounce now w d g) = debouncedValue g) \<and>
   (now \<le> later \<longrightarrow>
      debounce_elapse later (debounce_elapse now g) = debounce_elapse later g)"
proof (intro conjI impI)
  assume v: "v2 \<noteq> v1"
  let ?m = "useDebounce_mount T v0 20"
  have run: "debounce_renders 20 [(T + 5, v1), (T + 10, v2)] ?m =
      ?m\<lparr>dep_value := v2, handler := Some (T + 30, v2)\<rparr>"
    using v by (auto simp add: debounce_elapse_def useDebounce_def useDebounce_mount_def)
  show "\<forall>H\<ge>30.
         updates (debounce_elapse (T + H)
           (debounce_renders 20 [(T + 5, v1), (T + 10, v2)] ?m))
           = [(T + 30, v2)] \<and>
         debouncedValue (debounce_elapse (T + H)
           (debounce_renders 20 [(T + 5, v1), (T + 10, v2)] ?m))
           = v2"
    unfolding run by (simp add: debounce_elapse_def useDebounce_mount_def)
  show "\<forall>H<30.
         updates (debounce_elapse (T + H)
           (debounce_renders 20 [(T + 5, v1), (T + 10, v2)] ?m))
           = [] \<and>
         debouncedValue (debounce_elapse (T + H)
           (debounce_renders 20 [(T + 5, v1), (T + 10, v2)] ?m))
           = v0"
    unfolding run by (simp add: debounce_elapse_def useDebounce_mount_def)
next
  assume v: "v0 \<noteq> dep_value h \<and> v2 \<noteq> v1"
  define k where "k = debounce_elapse T h"
  have dep: "dep_value k = dep_value h"
    unfolding k_def by (simp add: debounce_elapse_def split: option.split prod.split)
  have "debounce_renders 20 [(T, v0), (T + 5, v1), (T + 10, v2)] h =
      debounce_renders 20 [(T + 5, v1), (T + 10, v2)] (useDebounce T v0 20 k)"
    by (simp add: k_def)
  also have "\<dots> = k\<lparr>dep_value := v2, dep_delay := 20, handler := Some (T + 30, v2)\<rparr>"
    using v dep by (auto simp add: useDebounce_def debounce_elapse_def)
  finally have run: "debounce_renders 20 [(T, v0), (T + 5, v1), (T + 10, v2)] h =
      k\<lparr>dep_value := v2, dep_delay := 20, handler := Some (T + 30, v2)\<rparr>" .
  have "\<forall>H\<ge>30.
         updates (debounce_elapse (T + H)
           (k\<lparr>dep_value := v2, dep_delay := 20, handler := Some (T + 30, v2)\<rparr>))
           = updates k @ [(T + 30, v2)] \<and>
         debouncedValue (debounce_elapse (T + H)
           (k\<lparr>dep_value := v2, dep_delay := 20, handler := Some (T + 30, v2)\<rparr>))
           = v2"
    by (simp add: debounce_elapse_def)
  then show "\<forall>H\<ge>30.
         updates (debounce_elapse (T + H)
           (debounce_renders 20 [(T, v0), (T + 5, v1), (T + 10, v2)] h))
           = updates (debounce_elapse T h) @ [(T + 30, v2)] \<and>
         debouncedValue (debounce_elapse (T + H)
           (debounce_renders 20 [(T, v0), (T + 5, v1), (T + 10, v2)] h))
           = v2"
    unfolding run k_def by simp
next
  assume b: "burst delay t v rs"
  let ?m = "useDebounce_mount t v delay"
  have eq: "debounce_renders delay rs ?m =
     ?m\<lparr>dep_value := snd (last ((t, v) # rs)),
       handler := Some (fst (last ((t, v) # rs)) + delay, snd (last ((t, v) # rs)))\<rparr>"
    using b by (intro debounce_renders_burst) (simp_all add: useDebounce_mount_def)
  show "updates (debounce_elapse (fst (last ((t, v) # rs)) + delay)
          (debounce_renders delay rs ?m))
        = [(fst (last ((t, v) # rs)) + delay, snd (last ((t, v) # rs)))]"
    unfolding eq by (simp add: debounce_elapse_def useDebounce_mount_def)
  show "debouncedValue (debounce_elapse (fst (last ((t, v) # rs)) + delay)
          (debounce_renders delay rs ?m))
        = snd (last ((t, v) # rs))"
    unfolding eq by (simp add: debounce_elapse_def useDebounce_mount_def)
  show "\<forall>H < fst (last ((t, v) # rs)) + delay.
         updates (debounce_elapse H (debounce_renders delay rs ?m)) = [] \<and>
         debouncedValue (debounce_elapse H (debounce_renders delay rs ?m)) = v"
    unfolding eq by (simp add: debounce_elapse_def useDebounce_mount_def)
next
  show "useDebounce now (dep_value g) (dep_delay g) g = g"
    by (simp add: useDebounce_def)
next
  show "useDebounce now v0 d (useDebounce_mount T v0 d) = useDebounce_mount T v0 d"
    by (simp add: useDebounce_def useDebounce_mount_def)
next
  assume c: "w \<noteq> dep_value g \<or> d \<noteq> dep_delay g"
  then show "handler (useDebounce now w d g) = Some (now + d, w)"
    and "updates (useDebounce now w d g) = updates g"
    and "debouncedValue (useDebounce now w d g) = debouncedValue g"
    by (auto simp add: useDebounce_def)
next
  assume "now \<le> later"
  then show "debounce_elapse later (debounce_elapse now g) = debounce_elapse later g"
    by (rule debounce_elapse_twice)
qed

theorem C9_debounce_last_value_witness:
  "''abc'' \<noteq> ''ab'' \<and>
   updates (debounce_elapse (0 + 30)
       (debounce_renders 20 [(0 + 5, ''ab''), (0 + 10, ''abc'')] (useDebounce_mount 0 ''a'' 20)))
     = [(0 + 30, ''abc'')] \<and>
   debouncedValue (debounce_elapse (0 + 30)
       (debounce_renders 20 [(0 + 5, ''ab''), (0 + 10, ''abc'')] (useDebounce_mount 0 ''a'' 20)))
     = ''abc'' \<and>
   updates (debounce_elapse (0 + 29)
       (debounce_renders 20 [(0 + 5, ''ab''), (0 + 10, ''abc'')] (useDebounce_mount 0 ''a'' 20)))
     = [] \<and>
   debouncedValue (debounce_elapse (0 + 29)
       (debounce_renders 20 [(0 + 5, ''ab''), (0 + 10, ''abc'')] (useDebounce_mount 0 ''a'' 20)))
     = ''a'' \<and>
   burst 20 0 ''a'' [(5, ''ab''), (10, ''abc'')] \<and>
   updates (debounce_elapse (10 + 20)
       (debounce_renders 20 [(5, ''ab''), (10, ''abc'')] (useDebounce_mount 0 ''a'' 20)))
     = [(10 + 20, ''abc'')] \<and>
   handler (useDebounce 7 ''b'' 20 (useDebounce_mount 0 ''a'' 20)) = Some (7 + 20, ''b'')"
  using C9_debounce_last_value [where ?v2.0 = "''abc''" and ?v1.0 = "''ab''" and T = 0
      and ?v0.0 = "''a''" and delay = 20 and t = 0 and v = "''a''"
      and rs = "[(5, ''ab''), (10, ''abc'')]" and w = "''b''" and d = 20 and now = 7
      and g = "useDebounce_mount 0 ''a'' 20"]
  by (simp add: useDebounce_mount_def)

section \<open>Properties of the screen-reader announcer\<close>

subsection \<open>Timers remove exactly the node they hold\<close>

lemma set_removeChild: "set (removeChild n b) = {r \<in> set b. node r \<noteq> n}"
  by (auto simp add: removeChild_def)

lemma in_fire_removals:
  "r \<in> set (fire_removals now ts b) \<longleftrightarrow>
     r \<in> set b \<and> (\<forall>due. (due, node r) \<in> set ts \<longrightarrow> now < due)"
proof (induction ts arbitrary: b)
  case Nil
  then show ?case by simp
next
  case (Cons t ts)
  obtain due n where t: "t = (due, n)" by (cases t)
  show ?case
  proof (cases "due \<le> now")
    case True
    then show ?thesis
      unfolding t by (simp add: Cons.IH set_removeChild) fastforce
  next
    case False
    then show ?thesis
      unfolding t by (simp add: Cons.IH)
  qed
qed

lemma wf_sr_elapse: "wf_sr s \<Longrightarrow> wf_sr (sr_elapse now s)"
  by (auto simp add: wf_sr_def sr_elapse_def in_fire_removals)

lemma wf_sr_announce: "wf_sr s \<Longrightarrow> wf_sr (announce now m p s)"
  by (fastforce simp add: wf_sr_def announce_def createElement_def Let_def)

lemma wf_sr_clear: "wf_sr s \<Longrightarrow> wf_sr (clearAnnouncements s)"
  by (simp add: wf_sr_def clearAnnouncements_def)

lemma wf_sr_step: "wf_sr s \<Longrightarrow> wf_sr (sr_step e s)"
  by (cases e) (simp_all add: wf_sr_elapse wf_sr_announce wf_sr_clear)

lemma wf_sr_run: "wf_sr s \<Longrightarrow> wf_sr (sr_run es s)"
  by (induction es arbitrary: s) (simp_all add: wf_sr_step)

lemma wf_sr_init: "wf_sr useScreenReader"
  by (simp add: wf_sr_def useScreenReader_def)

lemma sr_elapse_fields:
  "body (sr_elapse now s) = fire_removals now (removals s) (body s)"
  "removals (sr_elapse now s) = filter (\<lambda>(due, n). now < due) (removals s)"
  "created (sr_elapse now s) = created s"
  "announcements (sr_elapse now s) = announcements s"
  by (simp_all add: sr_elapse_def)

lemma announce_fields:
  "body (announce now m p s) = body s @ [createElement (created s) p m]"
  "removals (announce now m p s) = removals s @ [(now + 1000, created s)]"
  "created (announce now m p s) = created s + 1"
  "announcements (announce now m p s) = announcements s @ [m]"
  by (simp_all add: announce_def Let_def createElement_def)

lemma channel_liveD:
  assumes "channel_live D c s"
  shows "c \<in> set (body s)" and "(D, node c) \<in> set (removals s)"
    and "\<And>due. (due, node c) \<in> set (removals s) \<Longrightarrow> due = D"
    and "node c < created s"
  using assms unfolding channel_live_def by force+

lemma channel_liveI:
  assumes "c \<in> set (body s)" and "(D, node c) \<in> set (removals s)"
    and "\<And>due. (due, node c) \<in> set (removals s) \<Longrightarrow> due = D"
    and "node c < created s"
  shows "channel_live D c s"
proof -
  have "fst x = D" if "x \<in> set (removals s)" and "snd x = node c" for x
  proof -
    from that have "(fst x, node c) \<in> set (removals s)"
      by (metis prod.collapse)
    then show ?thesis by (rule assms(3))
  qed
  with assms(1,2,4) show ?thesis
    unfolding channel_live_def by blast
qed

lemma channel_live_elapse:
  assumes "channel_live D c s" and "now < D"
  shows "channel_live D c (sr_elapse now s)"
proof -
  note l = channel_liveD [OF assms(1)]
  have "c \<in> set (body (sr_elapse now s))"
    unfolding sr_elapse_fields in_fire_removals using l(1,3) assms(2) by blast
  moreover have "(D, node c) \<in> set (removals (sr_elapse now s))"
    unfolding sr_elapse_fields using l(2) assms(2) by simp
  moreover have "\<forall>due. (due, node c) \<in> set (removals (sr_elapse now s)) \<longrightarrow> due = D"
    unfolding sr_elapse_fields using l(3) by simp
  moreover have "node c < created (sr_elapse now s)"
    unfolding sr_elapse_fields using l(4) .
  ultimately show ?thesis by (blast intro: channel_liveI)
qed

lemma channel_live_announce:
  assumes "channel_live D c s"
  shows "channel_live D c (announce now m p s)"
proof -
  note l = channel_liveD [OF assms]
  have "c \<in> set (body (announce now m p s))"
    unfolding announce_fields using l(1) by simp
  moreover have "(D, node c) \<in> set (removals (announce now m p s))"
    unfolding announce_fields using l(2) by simp
  moreover have "\<forall>due. (due, node c) \<in> set (removals (announce now m p s)) \<longrightarrow> due = D"
    unfolding announce_fields using l(3,4) by auto
  moreover have "node c < created (announce now m p s)"
    unfolding announce_fields using l(4) by simp
  ultimately show ?thesis by (blast intro: channel_liveI)
qed

lemma channel_live_clear:
  "channel_live D c s \<Longrightarrow> channel_live D c (clearAnnouncements s)"
  by (simp add: channel_live_def clearAnnouncements_def)

lemma channel_live_step:
  "channel_live D c s \<Longrightarrow> event_time e < D \<Longrightarrow> channel_live D c (sr_step e s)"
  by (cases e) (simp_all add: channel_live_elapse channel_live_announce channel_live_clear)

lemma channel_live_run:
  "channel_live D c s \<Longrightarrow> events_before D es \<Longrightarrow> channel_live D c (sr_run es s)"
  by (induction es arbitrary: s) (simp_all add: channel_live_step)

lemma channel_live_new:
  assumes "wf_sr s"
  shows "channel_live (now + 1000) (createElement (created s) p m) (announce now m p s)"
proof -
  have n: "node (createElement (created s) p m) = created s"
    by (simp add: createElement_def)
  have old: "\<And>due. (due, created s) \<notin> set (removals s)"
    using assms unfolding wf_sr_def by fastforce
  show ?thesis
    by (rule channel_liveI) (simp_all add: announce_fields n old)
qed

lemma channel_removed:
  assumes "channel_live D c s" and "D \<le> H" and "r \<in> set (body (sr_elapse H s))"
  shows "node r \<noteq> node c"
proof
  assume "node r = node c"
  with assms(3) have "\<forall>due. (due, node c) \<in> set (removals s) \<longrightarrow> H < due"
    unfolding sr_elapse_fields in_fire_removals by simp
  with channel_liveD(2) [OF assms(1)] have "H < D" by blast
  with assms(2) show False by simp
qed

lemma announcements_step:
  "announcements (sr_step e s) =
     (case e of Announce now m p \<Rightarrow> announcements s @ [m]
      | ClearAnnouncements now \<Rightarrow> []
      | Elapse now \<Rightarrow> announcements s)"
  by (cases e) (simp_all add: announce_def sr_elapse_def clearAnnouncements_def Let_def)

lemma announcements_run:
  "no_clear es \<Longrightarrow> announcements (sr_run es s) = announcements s @ messages es"
proof (induction es arbitrary: s)
  case Nil
  then show ?case by simp
next
  case (Cons e es)
  then show ?case by (cases e) (simp_all add: announcements_step del: sr_step.simps)
qed

subsection \<open>Channels\<close>

text \<open>
  Claim C7: every call of \<^verbatim>\<open>announce(message, priority)\<close> creates a channel of
  its own: a new \<^verbatim>\<open>aria-live\<close> node with the message as its text, appended to the
  document body, whose identity no node of the body shares. The node stays in the body,
  its text untouched, through everything that happens less than 1000 ms after the
  call, and is gone once 1000 ms have passed. Two overlapping calls, also with the
  same text, leave two nodes of different identity in the body, each with the text of
  its own call. (The state \<open>s\<close> is any state the hook reaches from its mount.)
\<close>

theorem C7_announce_dedicated_channel:
  assumes "s = sr_run es useScreenReader"
    and "s1 = sr_step (Announce t1 m1 p1) s"
    and "c1 = createElement (created s) p1 m1"
    and "s2 = sr_step (Announce t2 m2 p2) s1"
    and "c2 = createElement (created s1) p2 m2"
  shows "body s1 = body (sr_elapse t1 s) @ [c1] \<and>
         list_all (\<lambda>r. node r \<noteq> node c1) (body (sr_elapse t1 s)) \<and>
         textContent c1 = m1 \<and> aria_live c1 = p1 \<and>
         (events_before (t1 + 1000) later \<longrightarrow> c1 \<in> set (body (sr_run later s1))) \<and>
         (events_before (t1 + 1000) later \<and> t1 + 1000 \<le> H \<longrightarrow>
            list_all (\<lambda>r. node r \<noteq> node c1) (body (sr_elapse H (sr_run later s1)))) \<and>
         (t2 < t1 + 1000 \<longrightarrow>
            c1 \<in> set (body s2) \<and> c2 \<in> set (body s2) \<and> node c1 \<noteq> node c2 \<and>
            textContent c1 = m1 \<and> textContent c2 = m2)"
proof -
  let ?s = "sr_elapse t1 s"
  have wf: "wf_sr ?s"
    unfolding assms(1) by (intro wf_sr_elapse wf_sr_run wf_sr_init)
  have cr: "created ?s = created s"
    by (simp add: sr_elapse_fields)
  have s1: "s1 = announce t1 m1 p1 ?s"
    by (simp add: assms(2))
  have n1: "node c1 = created s"
    by (simp add: assms(3) createElement_def)
  have live: "channel_live (t1 + 1000) c1 s1"
    unfolding s1 assms(3) using channel_live_new [OF wf, of t1 p1 m1] by (simp add: cr)
  have a: "body s1 = body ?s @ [c1]"
    unfolding s1 assms(3) by (simp add: announce_fields cr)
  have b: "list_all (\<lambda>r. node r \<noteq> node c1) (body ?s)"
    using wf unfolding wf_sr_def n1 cr list_all_iff by fastforce
  have c: "textContent c1 = m1 \<and> aria_live c1 = p1"
    by (simp add: assms(3) createElement_def)
  have d: "events_before (t1 + 1000) later \<longrightarrow> c1 \<in> set (body (sr_run later s1))"
    using channel_liveD(1) [OF channel_live_run [OF live]] by blast
  have e: "events_before (t1 + 1000) later \<and> t1 + 1000 \<le> H \<longrightarrow>
        list_all (\<lambda>r. node r \<noteq> node c1) (body (sr_elapse H (sr_run later s1)))"
    unfolding list_all_iff using channel_removed [OF channel_live_run [OF live]] by blast
  have f: "t2 < t1 + 1000 \<longrightarrow>
        c1 \<in> set (body s2) \<and> c2 \<in> set (body s2) \<and> node c1 \<noteq> node c2 \<and>
        textContent c1 = m1 \<and> textContent c2 = m2"
  proof
    assume t2: "t2 < t1 + 1000"
    have "channel_live (t1 + 1000) c1 (sr_step (Announce t2 m2 p2) s1)"
      using live t2 by (intro channel_live_step) simp_all
    then have "c1 \<in> set (body s2)"
      unfolding assms(4) by (rule channel_liveD(1))
    moreover have "c2 \<in> set (body s2)"
      unfolding assms(4,5) by (simp add: announce_fields sr_elapse_fields)
    moreover have "node c2 = created s + 1"
      unfolding assms(5) s1 by (simp add: createElement_def announce_fields cr)
    moreover have "textContent c2 = m2"
      by (simp add: assms(5) createElement_def)
    ultimately show "c1 \<in> set (body s2) \<and> c2 \<in> set (body s2) \<and> node c1 \<noteq> node c2 \<and>
        textContent c1 = m1 \<and> textContent c2 = m2"
      using n1 c by simp
  qed
  from a b c d e f show ?thesis by blast
qed

theorem C7_announce_dedicated_channel_witness:
  "body (sr_run [Announce 0 ''saved'' Polite, Announce 400 ''saved'' Polite] useScreenReader) =
     [createElement 0 Polite ''saved'', createElement 1 Polite ''saved''] \<and>
   events_before (0 + 1000) [Announce 400 ''saved'' Polite, Elapse 999] \<and>
   createElement 0 Polite ''saved'' \<in> set (body
     (sr_run [Announce 0 ''saved'' Polite, Announce 400 ''saved'' Polite, Elapse 999]
        useScreenReader)) \<and>
   body (sr_run [Announce 0 ''saved'' Polite, Announce 400 ''saved'' Polite, Elapse 1000]
        useScreenReader) = [createElement 1 Polite ''saved''] \<and>
   node (createElement 0 Polite ''saved'') \<noteq> node (createElement 1 Polite ''saved'')"
  using C7_announce_dedicated_channel [of useScreenReader "[]"
      "sr_step (Announce 0 ''saved'' Polite) useScreenReader" 0 "''saved''" Polite
      "createElement 0 Polite ''saved''"
      "sr_step (Announce 400 ''saved'' Polite) (sr_step (Announce 0 ''saved'' Polite) useScreenReader)"
      400 "''saved''" Polite "createElement 1 Polite ''saved''"
      "[Announce 400 ''saved'' Polite, Elapse 999]" 1000]
  by (simp add: useScreenReader_def announce_def sr_elapse_def createElement_def
      removeChild_def)

subsection \<open>The announcement history\<close>

text \<open>
  Claim C10: every call of \<^verbatim>\<open>announce(message, priority)\<close> also appends the
  message to the \<^verbatim>\<open>announcements\<close> list. The timers that remove the channels never
  touch the list, \<^verbatim>\<open>clearAnnouncements\<close> empties it, and over any sequence of
  events without a call of \<^verbatim>\<open>clearAnnouncements\<close> the list is the old list followed
  by the announced messages in order: it never gets shorter and grows by one per
  announcement.
\<close>

theorem C10_announcements_grow_until_cleared:
  "announcements (announce now m p s) = announcements s @ [m] \<and>
   announcements (sr_elapse now s) = announcements s \<and>
   announcements (clearAnnouncements s) = [] \<and>
   (no_clear es \<longrightarrow>
      announcements (sr_run es s) = announcements s @ messages es \<and>
      length (announcements s) \<le> length (announcements (sr_run es s)))"
  by (simp add: announce_fields sr_elapse_fields clearAnnouncements_def announcements_run)

theorem C10_announcements_witness:
  "no_clear [Announce 0 ''a'' Polite, Elapse 1000, Announce 1200 ''b'' Assertive, Elapse 5000] \<and>
   announcements
     (sr_run [Announce 0 ''a'' Polite, Elapse 1000, Announce 1200 ''b'' Assertive, Elapse 5000]
        useScreenReader) = [''a'', ''b''] \<and>
   body
     (sr_run [Announce 0 ''a'' Polite, Elapse 1000, Announce 1200 ''b'' Assertive, Elapse 5000]
        useScreenReader) = []"
  using C10_announcements_grow_until_cleared [of 0 "''a''" Polite useScreenReader
      "[Announce 0 ''a'' Polite, Elapse 1000, Announce 1200 ''b'' Assertive, Elapse 5000]"]
  by (simp add: useScreenReader_def announce_def sr_elapse_def createElement_def
      removeChild_def)

section \<open>Properties of the focus trap\<close>

lemma focusFirst_nonempty:
  "focusableElements \<noteq> [] \<Longrightarrow>
   focusFirst focusableElements d =
     d\<lparr>activeElement := Some (hd focusableElements), currentFocusIndex := 0\<rparr>"
  by (simp add: focusFirst_def focusElement_def hd_conv_nth)

lemma focusLast_nonempty:
  "focusableElements \<noteq> [] \<Longrightarrow>
   focusLast focusableElements d =
     d\<lparr>activeElement := Some (last focusableElements),
       currentFocusIndex := int (length focusableElements) - 1\<rparr>"
proof -
  assume ne: "focusableElements \<noteq> []"
  then have "nat (int (length focusableElements) - 1) = length focusableElements - 1"
    by simp
  with ne show ?thesis
    by (simp add: focusLast_def focusElement_def last_conv_nth)
qed

text \<open>
  Claim C6: for every non-empty list of focusable elements, a Tab key event (without
  Shift) while the last focusable element has the focus is intercepted (its default
  is prevented) and the focus moves to the first element; a Shift+Tab event while the
  first element has the focus is intercepted and the focus moves to the last element;
  on every other Tab event the handler prevents nothing and moves nothing.
\<close>

theorem C6_trapFocus_wraps:
  assumes "focusableElements \<noteq> []" and "key event = ''Tab''"
  shows "(\<not> shiftKey event \<and> activeElement d = Some (last focusableElements) \<longrightarrow>
            trapFocus focusableElements event d =
              (event\<lparr>defaultPrevented := True\<rparr>,
               d\<lparr>activeElement := Some (hd focusableElements), currentFocusIndex := 0\<rparr>)) \<and>
         (shiftKey event \<and> activeElement d = Some (hd focusableElements) \<longrightarrow>
            trapFocus focusableElements event d =
              (event\<lparr>defaultPrevented := True\<rparr>,
               d\<lparr>activeElement := Some (last focusableElements),
                 currentFocusIndex := int (length focusableElements) - 1\<rparr>)) \<and>
         (\<not> (\<not> shiftKey event \<and> activeElement d = Some (last focusableElements)) \<and>
          \<not> (shiftKey event \<and> activeElement d = Some (hd focusableElements)) \<longrightarrow>
            trapFocus focusableElements event d = (event, d))"
proof -
  have first: "focusableElements ! 0 = hd focusableElements"
    using assms(1) by (simp add: hd_conv_nth)
  have lst: "focusableElements ! (length focusableElements - 1) = last focusableElements"
    using assms(1) by (simp add: last_conv_nth)
  have len: "length focusableElements \<noteq> 0"
    using assms(1) by simp
  show ?thesis
    unfolding trapFocus_def first lst preventDefault_def
    using assms len by (simp add: focusFirst_nonempty focusLast_nonempty)
qed

theorem C6_trapFocus_wraps_witness:
  "[''link'', ''input'', ''button''] \<noteq> [] \<and>
   trapFocus [''link'', ''input'', ''button'']
       \<lparr>key = ''Tab'', shiftKey = False, defaultPrevented = False\<rparr>
       \<lparr>activeElement = Some ''button'', currentFocusIndex = 2\<rparr> =
     (\<lparr>key = ''Tab'', shiftKey = False, defaultPrevented = True\<rparr>,
      \<lparr>activeElement = Some ''link'', currentFocusIndex = 0\<rparr>) \<and>
   trapFocus [''link'', ''input'', ''button'']
       \<lparr>key = ''Tab'', shiftKey = True, defaultPrevented = False\<rparr>
       \<lparr>activeElement = Some ''link'', currentFocusIndex = 0\<rparr> =
     (\<lparr>key = ''Tab'', shiftKey = True, defaultPrevented = True\<rparr>,
      \<lparr>activeElement = Some ''button'', currentFocusIndex = 2\<rparr>) \<and>
   trapFocus [''link'', ''input'', ''button'']
       \<lparr>key = ''Tab'', shiftKey = False, defaultPrevented = False\<rparr>
       \<lparr>activeElement = Some ''input'', currentFocusIndex = 1\<rparr> =
     (\<lparr>key = ''Tab'', shiftKey = False, defaultPrevented = False\<rparr>,
      \<lparr>activeElement = Some ''input'', currentFocusIndex = 1\<rparr>)"
  using
    C6_trapFocus_wraps [of "[''link'', ''input'', ''button'']"
      "\<lparr>key = ''Tab'', shiftKey = True, defaultPrevented = False\<rparr>"
      "\<lparr>activeElement = Some ''link'', currentFocusIndex = 0\<rparr>"]
    C6_trapFocus_wraps [of "[''link'', ''input'', ''button'']"
      "\<lparr>key = ''Tab'', shiftKey = False, defaultPrevented = False\<rparr>"
      "\<lparr>activeElement = Some ''button'', currentFocusIndex = 2\<rparr>"]
    C6_trapFocus_wraps [of "[''link'', ''input'', ''button'']"
      "\<lparr>key = ''Tab'', shiftKey = False, defaultPrevented = False\<rparr>"
      "\<lparr>activeElement = Some ''input'', currentFocusIndex = 1\<rparr>"]
  by simp

section \<open>Properties of the preload cache\<close>

subsection \<open>Field-wise effect of the operations\<close>

lemma settle_fields:
  "state (settle p out w) = state w"
  "images (settle p out w) = images w"
  "issued (settle p out w) = issued w"
  "polls (settle p out w) = polls w"
  "length (promises (settle p out w)) = length (promises w)"
  by (simp_all add: settle_def)

lemma settle_other: "q \<noteq> p \<Longrightarrow> promises (settle p out w) ! q = promises w ! q"
  by (simp add: settle_def)

lemma settle_fresh:
  "settle (length ps) out (w\<lparr>promises := ps @ [Pending]\<rparr>) = w\<lparr>promises := ps @ [out]\<rparr>"
  by (simp add: settle_def)

lemma setLoaded_fields:
  "promises (setLoadedResources f w) = promises w"
  "images (setLoadedResources f w) = images w"
  "issued (setLoadedResources f w) = issued w"
  "polls (setLoadedResources f w) = polls w"
  "loadedResources (state (setLoadedResources f w)) = f (loadedResources (state w))"
  "loadingResources (state (setLoadedResources f w)) = loadingResources (state w)"
  by (simp_all add: setLoadedResources_def)

lemma setLoading_fields:
  "promises (setLoadingResources f w) = promises w"
  "images (setLoadingResources f w) = images w"
  "issued (setLoadingResources f w) = issued w"
  "polls (setLoadingResources f w) = polls w"
  "loadedResources (state (setLoadingResources f w)) = loadedResources (state w)"
  "loadingResources (state (setLoadingResources f w)) = f (loadingResources (state w))"
  by (simp_all add: setLoadingResources_def)

lemma waits_forever_settle:
  "waits_forever q w \<Longrightarrow> p \<noteq> q \<Longrightarrow> waits_forever q (settle p out w)"
  by (simp add: waits_forever_def settle_fields settle_other)

lemma waits_forever_checkLoaded:
  "waits_forever q w \<Longrightarrow> p \<noteq> q \<Longrightarrow> waits_forever q (checkLoaded loaded p src w)"
  unfolding checkLoaded_def
  by (simp add: waits_forever_settle) (simp add: waits_forever_def)

lemma waits_forever_preloadImage:
  assumes "waits_forever q w"
  shows "waits_forever q (preloadImage env src w)"
proof -
  let ?p = "length (promises w)"
  let ?w = "w\<lparr>promises := promises w @ [Pending]\<rparr>"
  from assms have q: "q < ?p"
    by (simp add: waits_forever_def)
  then have ne: "?p \<noteq> q" by simp
  from assms q have w': "waits_forever q ?w"
    by (simp add: waits_forever_def nth_append)
  have new: "waits_forever q ((setLoadingResources (\<lambda>prev. insert src prev) ?w)
                \<lparr>images := images ?w @ [(?p, src)], issued := issued ?w @ [src]\<rparr>)"
    using w' ne unfolding waits_forever_def by (simp add: setLoading_fields)
  show ?thesis
    unfolding preloadImage_def Let_def
    using waits_forever_settle [OF w' ne] waits_forever_checkLoaded [OF w' ne] new
    by simp
qed

lemma in_set_remove_nth: "x \<in> set (take i xs @ drop (Suc i) xs) \<Longrightarrow> x \<in> set xs"
  by (auto dest: in_set_takeD in_set_dropD)

lemma waits_foreverD:
  assumes "waits_forever q w"
  shows "q < length (promises w)" and "promises w ! q = Pending"
    and "\<And>p src. (p, src) \<in> set (images w) \<Longrightarrow> p \<noteq> q"
    and "\<And>p src loaded. (p, src, loaded) \<in> set (polls w) \<Longrightarrow> src \<notin> loaded"
  using assms unfolding waits_forever_def by force+

lemma waits_foreverI:
  assumes "q < length (promises w)" and "promises w ! q = Pending"
    and "\<And>p src. (p, src) \<in> set (images w) \<Longrightarrow> p \<noteq> q"
    and "\<And>p src loaded. (p, src, loaded) \<in> set (polls w) \<Longrightarrow> src \<notin> loaded"
  shows "waits_forever q w"
proof -
  have "fst x \<noteq> q" if "x \<in> set (images w)" for x
    using that assms(3) [of "fst x" "snd x"] by simp
  moreover have "fst (snd x) \<notin> snd (snd x)" if "x \<in> set (polls w)" for x
    using that assms(4) [of "fst x" "fst (snd x)" "snd (snd x)"] by simp
  ultimately show ?thesis
    using assms(1,2) unfolding waits_forever_def by blast
qed

lemma waits_forever_drop_image:
  assumes "waits_forever q w"
  shows "waits_forever q (w\<lparr>images := take i (images w) @ drop (Suc i) (images w)\<rparr>)"
proof (rule waits_foreverI)
  note d = waits_foreverD [OF assms]
  show "q < length (promises (w\<lparr>images := take i (images w) @ drop (Suc i) (images w)\<rparr>))"
    using d(1) by simp
  show "promises (w\<lparr>images := take i (images w) @ drop (Suc i) (images w)\<rparr>) ! q = Pending"
    using d(2) by simp
  show "p \<noteq> q"
    if "(p, src) \<in> set (images (w\<lparr>images := take i (images w) @ drop (Suc i) (images w)\<rparr>))"
    for p src
  proof -
    from that have "(p, src) \<in> set (take i (images w) @ drop (Suc i) (images w))"
      by simp
    then have "(p, src) \<in> set (images w)"
      by (rule in_set_remove_nth)
    then show ?thesis by (rule d(3))
  qed
  show "src \<notin> loaded"
    if "(p, src, loaded) \<in> set (polls (w\<lparr>images := take i (images w) @ drop (Suc i) (images w)\<rparr>))"
    for p src loaded
    using that d(4) by simp
qed

lemma waits_forever_setLoaded:
  "waits_forever q w \<Longrightarrow> waits_forever q (setLoadedResources f w)"
  by (simp add: waits_forever_def setLoaded_fields)

lemma waits_forever_setLoading:
  "waits_forever q w \<Longrightarrow> waits_forever q (setLoadingResources f w)"
  by (simp add: waits_forever_def setLoading_fields)

lemma waits_forever_img_onload:
  assumes "waits_forever q w"
  shows "waits_forever q (img_onload i w)"
proof (cases "i < length (images w)")
  case False
  then show ?thesis using assms by (simp add: img_onload_def)
next
  case True
  obtain p src where ps: "images w ! i = (p, src)" by (cases "images w ! i")
  from True have "images w ! i \<in> set (images w)"
    by (rule nth_mem)
  then have ne: "p \<noteq> q"
    unfolding ps by (rule waits_foreverD(3) [OF assms])
  let ?w = "setLoadingResources (\<lambda>prev. prev - {src})
      (setLoadedResources (\<lambda>prev. insert src prev)
        (w\<lparr>images := take i (images w) @ drop (Suc i) (images w)\<rparr>))"
  have "waits_forever q ?w"
    by (intro waits_forever_setLoading waits_forever_setLoaded waits_forever_drop_image assms)
  then have "waits_forever q (settle p Resolved ?w)"
    using ne by (rule waits_forever_settle)
  then show ?thesis
    using True by (simp add: img_onload_def ps Let_def)
qed

lemma waits_forever_img_onerror:
  assumes "waits_forever q w"
  shows "waits_forever q (img_onerror i w)"
proof (cases "i < length (images w)")
  case False
  then show ?thesis using assms by (simp add: img_onerror_def)
next
  case True
  obtain p src where ps: "images w ! i = (p, src)" by (cases "images w ! i")
  from True have "images w ! i \<in> set (images w)"
    by (rule nth_mem)
  then have ne: "p \<noteq> q"
    unfolding ps by (rule waits_foreverD(3) [OF assms])
  let ?w = "setLoadingResources (\<lambda>prev. prev - {src})
        (w\<lparr>images := take i (images w) @ drop (Suc i) (images w)\<rparr>)"
  have "waits_forever q ?w"
    by (intro waits_forever_setLoading waits_forever_drop_image assms)
  then have "waits_forever q (settle p (Rejected (''Failed to load image: '' @ src)) ?w)"
    using ne by (rule waits_forever_settle)
  then show ?thesis
    using True by (simp add: img_onerror_def ps Let_def)
qed

lemma waits_forever_poll_timer:
  assumes "waits_forever q w"
  shows "waits_forever q (poll_timer w)"
proof (cases "polls w")
  case Nil
  then show ?thesis using assms by (simp add: poll_timer_def)
next
  case (Cons t rest)
  obtain p src loaded where t: "t = (p, src, loaded)" by (cases t)
  have "(p, src, loaded) \<in> set (polls w)"
    by (simp add: Cons t)
  then have out: "src \<notin> loaded"
    by (rule waits_foreverD(4) [OF assms])
  have "waits_forever q (w\<lparr>polls := rest @ [(p, src, loaded)]\<rparr>)"
    using assms out unfolding waits_forever_def Cons t by simp
  then show ?thesis
    using out by (simp add: poll_timer_def Cons t checkLoaded_def)
qed

lemma waits_forever_step: "waits_forever q w \<Longrightarrow> waits_forever q (preload_step e w)"
  by (cases e)
    (simp_all add: waits_forever_preloadImage waits_forever_img_onload
      waits_forever_img_onerror waits_forever_poll_timer)

lemma waits_forever_run: "waits_forever q w \<Longrightarrow> waits_forever q (preload_run es w)"
  by (induction es arbitrary: w) (simp_all add: waits_forever_step)

lemma waits_forever_pending: "waits_forever q w \<Longrightarrow> promises (preload_run es w) ! q = Pending"
  using waits_forever_run [of q w es] by (simp add: waits_forever_def)

subsection \<open>Every waiter waits forever\<close>

lemma wf_world_init: "wf_world usePreload"
  by (simp add: wf_world_def usePreload_def)

lemma wf_world_settle: "wf_world w \<Longrightarrow> wf_world (settle p out w)"
  by (simp add: wf_world_def settle_fields)

lemma wf_world_setLoaded: "wf_world w \<Longrightarrow> wf_world (setLoadedResources f w)"
  by (simp add: wf_world_def setLoaded_fields)

lemma wf_world_setLoading: "wf_world w \<Longrightarrow> wf_world (setLoadingResources f w)"
  by (simp add: wf_world_def setLoading_fields)

lemma wf_world_drop_image:
  assumes "wf_world w"
  shows "wf_world (w\<lparr>images := take i (images w) @ drop (Suc i) (images w)\<rparr>)"
proof -
  have "fst x < length (promises w)"
    if "x \<in> set (take i (images w) @ drop (Suc i) (images w))" for x
  proof -
    from that have "x \<in> set (images w)"
      by (rule in_set_remove_nth)
    with assms show ?thesis
      unfolding wf_world_def by blast
  qed
  with assms show ?thesis
    unfolding wf_world_def by simp
qed

lemma wf_world_preloadImage:
  assumes "wf_world w"
  shows "wf_world (preloadImage env src w)"
proof -
  let ?w = "w\<lparr>promises := promises w @ [Pending]\<rparr>"
  have w': "wf_world ?w"
    using assms unfolding wf_world_def by (simp add: less_SucI)
  have poll: "wf_world (?w\<lparr>polls := polls ?w @ [(length (promises w), src, loadedResources env)]\<rparr>)"
    if "src \<notin> loadedResources env"
    using w' that unfolding wf_world_def by simp
  have new: "wf_world ((setLoadingResources (\<lambda>prev. insert src prev) ?w)
                \<lparr>images := images ?w @ [(length (promises w), src)],
                  issued := issued ?w @ [src]\<rparr>)"
    using w' unfolding wf_world_def by (simp add: setLoading_fields)
  show ?thesis
    unfolding preloadImage_def Let_def checkLoaded_def
    using wf_world_settle [OF w'] poll new by simp
qed

lemma wf_world_img_onload: "wf_world w \<Longrightarrow> wf_world (img_onload i w)"
  by (cases "images w ! i")
    (simp add: img_onload_def Let_def wf_world_settle wf_world_setLoading
      wf_world_setLoaded wf_world_drop_image)

lemma wf_world_img_onerror: "wf_world w \<Longrightarrow> wf_world (img_onerror i w)"
  by (cases "images w ! i")
    (simp add: img_onerror_def Let_def wf_world_settle wf_world_setLoading
      wf_world_drop_image)

lemma wf_world_poll_timer:
  assumes "wf_world w"
  shows "wf_world (poll_timer w)"
proof (cases "polls w")
  case Nil
  then show ?thesis using assms by (simp add: poll_timer_def)
next
  case (Cons t rest)
  obtain p src loaded where t: "t = (p, src, loaded)" by (cases t)
  from assms have out: "src \<notin> loaded"
    unfolding wf_world_def Cons t by simp
  have "wf_world (w\<lparr>polls := rest @ [(p, src, loaded)]\<rparr>)"
    using assms out unfolding wf_world_def Cons t by simp
  then show ?thesis
    using out by (simp add: poll_timer_def Cons t checkLoaded_def)
qed

lemma wf_world_step: "wf_world w \<Longrightarrow> wf_world (preload_step e w)"
  by (cases e)
    (simp_all add: wf_world_preloadImage wf_world_img_onload wf_world_img_onerror
      wf_world_poll_timer)

lemma wf_world_run: "wf_world w \<Longrightarrow> wf_world (preload_run es w)"
  by (induction es arbitrary: w) (simp_all add: wf_world_step)

text \<open>
  A request that finds its key in \<^verbatim>\<open>loadingResources\<close> starts to poll and starts no
  load.
\<close>

lemma preloadImage_waiter:
  "src \<notin> loadedResources env \<Longrightarrow> src \<in> loadingResources env \<Longrightarrow>
   preloadImage env src w =
     w\<lparr>promises := promises w @ [Pending],
       polls := polls w @ [(length (promises w), src, loadedResources env)]\<rparr>"
  by (simp add: preloadImage_def Let_def checkLoaded_def)

text \<open>
  In any world that the hook reaches from its mount, the promise of such a request is
  never settled, whatever happens afterwards.
\<close>

lemma waiter_never_settles:
  assumes "w = preload_run before usePreload"
    and "src \<notin> loadedResources env" and "src \<in> loadingResources env"
  shows "promises (preload_run after (preloadImage env src w)) ! length (promises w) = Pending"
proof -
  have wf: "wf_world w"
    unfolding assms(1) by (intro wf_world_run wf_world_init)
  have "waits_forever (length (promises w)) (preloadImage env src w)"
    unfolding preloadImage_waiter [OF assms(2,3)]
    using wf assms(2) unfolding wf_world_def waits_forever_def
    by (auto simp add: nth_append)
  then show ?thesis
    by (rule waits_forever_pending)
qed

subsection \<open>The loaded set only grows\<close>

lemma loaded_preloadImage:
  "loadedResources (state (preloadImage env src w)) = loadedResources (state w)"
  by (simp add: preloadImage_def Let_def settle_fields checkLoaded_def setLoading_fields)

lemma loaded_img_onload:
  "loadedResources (state w) \<subseteq> loadedResources (state (img_onload i w))"
  by (cases "images w ! i")
    (auto simp add: img_onload_def Let_def settle_fields setLoading_fields setLoaded_fields)

lemma loaded_img_onerror:
  "loadedResources (state (img_onerror i w)) = loadedResources (state w)"
  by (cases "images w ! i")
    (simp add: img_onerror_def Let_def settle_fields setLoading_fields)

lemma loaded_poll_timer:
  "loadedResources (state (poll_timer w)) = loadedResources (state w)"
  by (simp add: poll_timer_def checkLoaded_def settle_fields split: list.split)

lemma loaded_step: "loadedResources (state w) \<subseteq> loadedResources (state (preload_step e w))"
  by (cases e)
    (simp_all add: loaded_preloadImage loaded_img_onload loaded_img_onerror loaded_poll_timer)

lemma loaded_run: "loadedResources (state w) \<subseteq> loadedResources (state (preload_run es w))"
proof (induction es arbitrary: w)
  case Nil
  show ?case by simp
next
  case (Cons e es)
  have "loadedResources (state w) \<subseteq> loadedResources (state (preload_step e w))"
    by (rule loaded_step)
  also have "\<dots> \<subseteq> loadedResources (state (preload_run es (preload_step e w)))"
    by (rule Cons.IH)
  finally show ?case by simp
qed

lemma img_onload_loaded:
  "i < length (images w) \<Longrightarrow> snd (images w ! i) \<in> loadedResources (state (img_onload i w))"
  by (cases "images w ! i")
    (simp add: img_onload_def Let_def settle_fields setLoading_fields setLoaded_fields)

lemma preloadImage_hit:
  "src \<in> loadedResources env \<Longrightarrow>
   preloadImage env src w = w\<lparr>promises := promises w @ [Resolved]\<rparr>"
  by (simp add: preloadImage_def Let_def settle_fresh)

lemmas preload_defs = usePreload_def preloadImage_def preloadImages_def img_onload_def
  img_onerror_def poll_timer_def checkLoaded_def settle_def setLoadedResources_def
  setLoadingResources_def Let_def

subsection \<open>Deduplication and waiters\<close>

lemma scenario_waiter:
  "preload_run [Call (state usePreload) ''a.png'',
      Call (state (preloadImage (state usePreload) ''a.png'' usePreload)) ''a.png''] usePreload =
   \<lparr>state = \<lparr>loadedResources = {}, loadingResources = {''a.png''}\<rparr>,
     promises = [Pending, Pending], images = [(0, ''a.png'')],
     issued = [''a.png''], polls = [(1, ''a.png'', {})]\<rparr>"
  by (simp add: preload_defs)

lemma scenario_waiter_error:
  "preload_run [Call (state usePreload) ''a.png'',
      Call (state (preloadImage (state usePreload) ''a.png'' usePreload)) ''a.png'',
      Onerror 0] usePreload =
   \<lparr>state = \<lparr>loadedResources = {}, loadingResources = {}\<rparr>,
     promises = [Rejected ''Failed to load image: a.png'', Pending], images = [],
     issued = [''a.png''], polls = [(1, ''a.png'', {})]\<rparr>"
  by (simp add: preload_defs)

lemma scenario_loaded:
  "preload_run [Call (state usePreload) ''a.png'', Onload 0] usePreload =
   \<lparr>state = \<lparr>loadedResources = {''a.png''}, loadingResources = {}\<rparr>,
     promises = [Resolved], images = [], issued = [''a.png''], polls = []\<rparr>"
  by (simp add: preload_defs)

text \<open>
  Claim C1 says that concurrent requests for one key share one underlying load and
  that every caller's promise settles with the outcome of that load. The code does
  neither. Two calls through the callback of one render, as
  \<^verbatim>\<open>preloadImages(['a.png', 'a.png'])\<close> makes them, both read the
  \<^verbatim>\<open>loadingResources\<close> of that render, which does not hold the key, and each starts
  a load. A call through the callback of the next render finds the key in
  \<^verbatim>\<open>loadingResources\<close> and polls the \<^verbatim>\<open>loadedResources\<close> of its render, which
  never changes: its promise stays pending whatever happens afterwards, also after the
  load has succeeded. (Lemma \<open>waiter_never_settles\<close> shows this for every such call
  in every world the hook reaches.)
\<close>

theorem C1_two_loads_and_waiter_never_settles:
  "issued (preloadImages (state usePreload) [''a.png'', ''a.png''] usePreload) =
     [''a.png'', ''a.png''] \<and>
   (\<forall>es. promises (preload_run es
      (preload_run [Call (state usePreload) ''a.png'',
         Call (state (preloadImage (state usePreload) ''a.png'' usePreload)) ''a.png'']
       usePreload)) ! 1 = Pending)"
proof
  show "issued (preloadImages (state usePreload) [''a.png'', ''a.png''] usePreload) =
     [''a.png'', ''a.png'']"
    by (simp add: preload_defs)
  have "waits_forever 1 (preload_run [Call (state usePreload) ''a.png'',
         Call (state (preloadImage (state usePreload) ''a.png'' usePreload)) ''a.png'']
       usePreload)"
    unfolding scenario_waiter by (simp add: waits_forever_def)
  then show "\<forall>es. promises (preload_run es
      (preload_run [Call (state usePreload) ''a.png'',
         Call (state (preloadImage (state usePreload) ''a.png'' usePreload)) ''a.png'']
       usePreload)) ! 1 = Pending"
    by (simp add: waits_forever_pending)
qed

text \<open>
  Claim C2 says that a failed load rejects the promise of every current waiter. In
  the code \<^verbatim>\<open>img.onerror\<close> rejects the promise of the call that started the load
  and removes the key from \<^verbatim>\<open>loadingResources\<close>, nothing retries the load, and a
  request through the callback of the next render starts a new one. A waiter,
  though, is not rejected: it only polls for the key in \<^verbatim>\<open>loadedResources\<close>, and
  its promise stays pending whatever happens afterwards.
\<close>

theorem C2_failure_not_reported_to_waiter:
  "promises (preload_run [Call (state usePreload) ''a.png'',
      Call (state (preloadImage (state usePreload) ''a.png'' usePreload)) ''a.png'',
      Onerror 0] usePreload) = [Rejected ''Failed to load image: a.png'', Pending] \<and>
   ''a.png'' \<notin> loadingResources (state (preload_run [Call (state usePreload) ''a.png'',
      Call (state (preloadImage (state usePreload) ''a.png'' usePreload)) ''a.png'',
      Onerror 0] usePreload)) \<and>
   (\<forall>es. promises (preload_run es (preload_run [Call (state usePreload) ''a.png'',
      Call (state (preloadImage (state usePreload) ''a.png'' usePreload)) ''a.png'',
      Onerror 0] usePreload)) ! 1 = Pending) \<and>
   issued (preloadImage \<lparr>loadedResources = {}, loadingResources = {}\<rparr> ''a.png''
     (preload_run [Call (state usePreload) ''a.png'',
      Call (state (preloadImage (state usePreload) ''a.png'' usePreload)) ''a.png'',
      Onerror 0] usePreload)) = [''a.png'', ''a.png'']"
proof -
  have "waits_forever 1 (preload_run [Call (state usePreload) ''a.png'',
      Call (state (preloadImage (state usePreload) ''a.png'' usePreload)) ''a.png'',
      Onerror 0] usePreload)"
    unfolding scenario_waiter_error by (simp add: waits_forever_def)
  then have "\<forall>es. promises (preload_run es (preload_run [Call (state usePreload) ''a.png'',
      Call (state (preloadImage (state usePreload) ''a.png'' usePreload)) ''a.png'',
      Onerror 0] usePreload)) ! 1 = Pending"
    by (simp add: waits_forever_pending)
  moreover have "issued (preloadImage \<lparr>loadedResources = {}, loadingResources = {}\<rparr> ''a.png''
     (preload_run [Call (state usePreload) ''a.png'',
      Call (state (preloadImage (state usePreload) ''a.png'' usePreload)) ''a.png'',
      Onerror 0] usePreload)) = [''a.png'', ''a.png'']"
    unfolding scenario_waiter_error by (simp add: preload_defs)
  ultimately show ?thesis
    unfolding scenario_waiter_error by simp
qed

subsection \<open>Requests for a loaded key\<close>

text \<open>
  Through the callback of a render that has the key in its \<^verbatim>\<open>loadedResources\<close>,
  which is every render after the load has completed, a request resolves at once,
  starts no load and leaves the state as it is.
\<close>

lemma preloadImage_after_onload:
  assumes "i < length (images w)" and "images w ! i = (p, src)"
    and "env = state (preload_run es (img_onload i w))"
  shows "src \<in> loadedResources env \<and>
         preloadImage env src w' = w'\<lparr>promises := promises w' @ [Resolved]\<rparr>"
proof -
  have "src \<in> loadedResources (state (img_onload i w))"
    using img_onload_loaded [OF assms(1)] by (simp add: assms(2))
  then have "src \<in> loadedResources env"
    unfolding assms(3) using loaded_run by blast
  then show ?thesis
    by (simp add: preloadImage_hit)
qed

text \<open>
  Claim C8 says that after a successful load of a key every later request for it
  resolves immediately, without a new underlying load and without a change of the
  cache state. The code checks \<^verbatim>\<open>loadedResources.has(src)\<close> first, but on the set
  of the render that created the callback. When the callback that started the load is
  called again after the load has completed, it still reads the sets of its render:
  it finds the key neither loaded nor loading, puts it into \<^verbatim>\<open>loadingResources\<close>
  again and starts a second load.
\<close>

theorem C8_second_call_after_load_reloads:
  "''a.png'' \<in> loadedResources (state
      (preload_run [Call (state usePreload) ''a.png'', Onload 0] usePreload)) \<and>
   promises (preload_run [Call (state usePreload) ''a.png'', Onload 0] usePreload) = [Resolved] \<and>
   issued (preload_run [Call (state usePreload) ''a.png'', Onload 0] usePreload) = [''a.png''] \<and>
   preloadImage (state usePreload) ''a.png''
      (preload_run [Call (state usePreload) ''a.png'', Onload 0] usePreload) =
     \<lparr>state = \<lparr>loadedResources = {''a.png''}, loadingResources = {''a.png''}\<rparr>,
       promises = [Resolved, Pending], images = [(1, ''a.png'')],
       issued = [''a.png'', ''a.png''], polls = []\<rparr>"
  unfolding scenario_loaded by (simp add: preload_defs)

end
